theory Spec2Isabelle
  imports Complex_Main
begin

section \<open>Coordinate system (coords.h)\<close>

text \<open>
  The solver reads the geometry through the accessors declared in coords.h:
  \<^verbatim>\<open>cs_ltot\<close>, \<open>cs_nlocal\<close>, \<open>cs_nhalo\<close>, \<open>cs_nsites\<close>, \<open>cs_strides\<close>, \<open>cs_index\<close>.
  The C arrays of length three are indexed by the enumeration \<open>X, Y, Z\<close>.
  A \<open>double\<close> is idealised as a real number throughout.
\<close>

datatype axis = X | Y | Z

record coords =
  ntotal :: "axis \<Rightarrow> int"
  ltot :: "axis \<Rightarrow> real"
  nlocal :: "axis \<Rightarrow> int"
  nhalo :: int
  cartsz :: "axis \<Rightarrow> int"
  periodic :: "axis \<Rightarrow> bool"

text \<open>
  Modelled from the spec: \<open>cs_nsites\<close>, \<open>cs_strides\<close> and \<open>cs_index\<close> live in coords.c,
  which is not among the sources. The spec gives the number of storage sites as
  (local extent + 2 * halo) per axis, and the linear address as consistent with the
  declared strides of a plane/row/column addressing scheme over local coordinates that
  include the halo, so that the first storage site \<open>(1 - nhalo, 1 - nhalo, 1 - nhalo)\<close>
  has address 0.
\<close>

definition nall :: "coords \<Rightarrow> axis \<Rightarrow> int" where
  "nall cs a = nlocal cs a + 2 * nhalo cs"

definition cs_nsites :: "coords \<Rightarrow> int" where
  "cs_nsites cs = nall cs X * nall cs Y * nall cs Z"

definition cs_strides :: "coords \<Rightarrow> int \<times> int \<times> int" where
  "cs_strides cs = (nall cs Y * nall cs Z, nall cs Z, 1)"

definition cs_index :: "coords \<Rightarrow> int \<Rightarrow> int \<Rightarrow> int \<Rightarrow> int" where
  "cs_index cs ic jc kc =
     (case cs_strides cs of (xs, ys, zs) \<Rightarrow>
        xs * (nhalo cs + ic - 1) + ys * (nhalo cs + jc - 1) + zs * (nhalo cs + kc - 1))"

text \<open>
  Modelled from the spec: the macro \<open>addr_rank0(nsites, index)\<close> of memory.h (not among
  the sources) addresses a one-component field at a local linear address.
\<close>

definition addr_rank0 :: "int \<Rightarrow> int \<Rightarrow> int" where
  "addr_rank0 nsites index = index"

text \<open>\<open>dmax\<close> of util.c (not among the sources): the larger of two doubles.\<close>

definition dmax :: "real \<Rightarrow> real \<Rightarrow> real" where
  "dmax a b = (if a > b then a else b)"

section \<open>The potential object (psi_s.h accessors used by psi_sor.c)\<close>

type_synonym field = "int \<Rightarrow> real"

text \<open>
  The scalar parameters the solver fetches from the \<open>psi_t\<close> object:
  \<open>psi_epsilon\<close>, \<open>psi_reltol\<close>, \<open>psi_abstol\<close>, \<open>psi_maxits\<close>, \<open>psi_beta\<close>,
  \<open>psi_unit_charge\<close> and the field \<open>nfreq\<close>.
\<close>

record params =
  epsilon :: real
  reltol :: real
  abstol :: real
  maxits :: int
  beta :: real
  unit_charge :: real
  nfreq :: int

text \<open>
  A failed \<open>assert\<close> aborts the program; the text of the assertion is kept.
  \<open>its % obj->nfreq\<close> with \<open>nfreq = 0\<close> is a division by zero.
\<close>

datatype error = Assertion string | DivisionByZero

text \<open>
  The three groups of \<open>pe_info\<close> calls of each solver, with the numbers they print:
  the residual per site and the iteration count on convergence, and the iteration count
  with the initial and final residual norms when the iterations run out.
\<close>

datatype message =
    ConvergedAbsolute real int
  | ConvergedRelative real int
  | Exceeded int real real

section \<open>Loop nests\<close>

text \<open>\<^verbatim>\<open>for (kc = kst; kc <= nlocal[Z]; kc += 2)\<close>\<close>

function kc_loop :: "int \<Rightarrow> int \<Rightarrow> int list" where
  "kc_loop kc nz = (if kc \<le> nz then kc # kc_loop (kc + 2) nz else [])"
  by pat_completeness auto
termination
  by (relation "measure (\<lambda>(kc, nz). nat (nz + 1 - kc))") auto

declare kc_loop.simps [simp del]

text \<open>
  The sites visited by the triple loop that computes the initial norm, in the order
  of the loop, and the sites visited by one red/black pass, where the innermost loop
  starts at \<open>kst = 1 + (ic + jc + pass) % 2\<close> and steps by two.
\<close>

definition all_sites :: "coords \<Rightarrow> (int \<times> int \<times> int) list" where
  "all_sites cs =
     concat (map (\<lambda>ic. concat (map (\<lambda>jc. map (\<lambda>kc. (ic, jc, kc)) [1..nlocal cs Z])
       [1..nlocal cs Y])) [1..nlocal cs X])"

definition pass_sites :: "coords \<Rightarrow> int \<Rightarrow> (int \<times> int \<times> int) list" where
  "pass_sites cs pass =
     concat (map (\<lambda>ic. concat (map (\<lambda>jc.
         map (\<lambda>kc. (ic, jc, kc)) (kc_loop (1 + (ic + jc + pass) mod 2) (nlocal cs Z)))
       [1..nlocal cs Y])) [1..nlocal cs X])"

definition site_index :: "coords \<Rightarrow> int \<times> int \<times> int \<Rightarrow> int" where
  "site_index cs s = (case s of (ic, jc, kc) \<Rightarrow> cs_index cs ic jc kc)"

section \<open>Uniform permittivity: psi_sor_poisson\<close>

text \<open>The 6-point stencil of the Laplacian at a linear address.\<close>

definition dpsi_stencil :: "coords \<Rightarrow> field \<Rightarrow> int \<Rightarrow> real" where
  "dpsi_stencil cs psi index =
     (case cs_strides cs of (xs, ys, zs) \<Rightarrow>
        psi (addr_rank0 (cs_nsites cs) (index + xs))
      + psi (addr_rank0 (cs_nsites cs) (index - xs))
      + psi (addr_rank0 (cs_nsites cs) (index + ys))
      + psi (addr_rank0 (cs_nsites cs) (index - ys))
      + psi (addr_rank0 (cs_nsites cs) (index + zs))
      + psi (addr_rank0 (cs_nsites cs) (index - zs))
      - 6 * psi (addr_rank0 (cs_nsites cs) index))"

definition residual_poisson :: "coords \<Rightarrow> params \<Rightarrow> (int \<Rightarrow> real) \<Rightarrow> field \<Rightarrow> int \<Rightarrow> real" where
  "residual_poisson cs prm rho_elec psi index =
     epsilon prm * dpsi_stencil cs psi index + unit_charge prm * beta prm * rho_elec index"

text \<open>
  The initial norm of one process: \<open>rnorm_local[0]\<close> accumulated over the triple loop.
\<close>

definition rnorm_local0_poisson :: "coords \<Rightarrow> params \<Rightarrow> (int \<Rightarrow> real) \<Rightarrow> field \<Rightarrow> real" where
  "rnorm_local0_poisson cs prm rho_elec psi =
     foldl (\<lambda>acc s. acc + \<bar>residual_poisson cs prm rho_elec psi (site_index cs s)\<bar>)
       0 (all_sites cs)"

text \<open>
  The body of the innermost loop of a pass: the residual at the site, the in-place
  relaxation of \<open>psi\<close> there, and the accumulation of \<open>rnorm_local[1]\<close>.
\<close>

definition sor_site ::
  "coords \<Rightarrow> params \<Rightarrow> (int \<Rightarrow> real) \<Rightarrow> real \<Rightarrow> field \<times> real \<Rightarrow> int \<Rightarrow> field \<times> real" where
  "sor_site cs prm rho_elec om st index =
     (case st of (psi, rn) \<Rightarrow>
        let residual = residual_poisson cs prm rho_elec psi index;
            a = addr_rank0 (cs_nsites cs) index
        in (psi(a := psi a - om * residual / (- 6 * epsilon prm)), rn + \<bar>residual\<bar>))"

definition sor_pass ::
  "coords \<Rightarrow> params \<Rightarrow> (int \<Rightarrow> real) \<Rightarrow> real \<Rightarrow> int \<Rightarrow> field \<times> real \<Rightarrow> field \<times> real" where
  "sor_pass cs prm rho_elec om pass st =
     foldl (\<lambda>st s. sor_site cs prm rho_elec om st (site_index cs s)) st (pass_sites cs pass)"

section \<open>The state of a solve\<close>

text \<open>
  Every process runs the same code on its own subdomain, and the processes meet at the
  halo exchange after each pass and at the \<open>MPI_Allreduce\<close> of the residual check.
  The group is modelled in lockstep: \<open>'p\<close> names the processes, \<open>psis st p\<close> is the
  potential \<open>obj->psi\<close> of process \<open>p\<close> and \<open>rnorm_local st p\<close> its pair
  \<open>rnorm_local[0], rnorm_local[1]\<close>. The reduced pair \<open>rnorm\<close>, the relaxation
  parameter \<open>omega\<close>, the iteration counter \<open>n\<close> and what rank 0 prints are the same
  on every process. \<open>rnorm\<close> is uninitialised in the C code until the first reduction,
  which happens at \<open>n = 0\<close>; the model starts it at \<open>(0, 0)\<close>.
\<close>

record 'p sor_state =
  psis :: "'p \<Rightarrow> field"
  rnorm_local :: "'p \<Rightarrow> real \<times> real"
  rnorm :: "real \<times> real"
  omega :: real
  iteration :: int
  printed :: "message list"

text \<open>
  \<^verbatim>\<open>MPI_Allreduce(rnorm_local, rnorm, 2, MPI_DOUBLE, MPI_SUM, comm)\<close>:
  both elements are summed over the processes \<open>procs\<close> of the communicator.
\<close>

definition reduced :: "'p list \<Rightarrow> 'p sor_state \<Rightarrow> real \<times> real" where
  "reduced procs st = (sum_list (map (\<lambda>p. fst (rnorm_local st p)) procs),
                       sum_list (map (\<lambda>p. snd (rnorm_local st p)) procs))"

definition allreduce_rnorm :: "'p list \<Rightarrow> 'p sor_state \<Rightarrow> 'p sor_state" where
  "allreduce_rnorm procs st = st\<lparr>rnorm := reduced procs st\<rparr>"

text \<open>
  The spectral radius of the Jacobi iteration:
  \<^verbatim>\<open>radius = 1.0 - 0.5*pow(4.0*atan(1.0)/dmax(ltot[X],ltot[Z]), 2)\<close>
\<close>

definition sor_radius :: "coords \<Rightarrow> real" where
  "sor_radius cs = 1 - 0.5 * (4 * arctan 1 / dmax (ltot cs X) (ltot cs Z))\<^sup>2"

definition ltot_volume :: "coords \<Rightarrow> real" where
  "ltot_volume cs = ltot cs X * ltot cs Y * ltot cs Z"

text \<open>
  The report made when the iterations run out:
  \<^verbatim>\<open>if (n == niteration-1) { pe_info(... n+1); pe_info(... rnorm[0], rnorm[1]); }\<close>
\<close>

definition report_exceeded :: "params \<Rightarrow> int \<Rightarrow> 'p sor_state \<Rightarrow> 'p sor_state" where
  "report_exceeded prm n st =
     (if n = maxits prm - 1
      then st\<lparr>printed := printed st @ [Exceeded (n + 1) (fst (rnorm st)) (snd (rnorm st))]\<rparr>
      else st)"

text \<open>
  The report made on convergence, printed only when \<open>its % obj->nfreq == 0\<close>,
  followed by \<open>break\<close>.
\<close>

definition report_converged ::
  "coords \<Rightarrow> params \<Rightarrow> int \<Rightarrow> (real \<Rightarrow> int \<Rightarrow> message) \<Rightarrow> int \<Rightarrow> 'p sor_state
     \<Rightarrow> error + bool \<times> 'p sor_state" where
  "report_converged cs prm its msg n st =
     (if nfreq prm = 0 then Inl DivisionByZero
      else if its mod nfreq prm = 0
      then Inr (True, st\<lparr>printed := printed st @ [msg (snd (rnorm st) / ltot_volume cs) n]\<rparr>)
      else Inr (True, st))"

text \<open>
  The loop \<^verbatim>\<open>for (n = 0; n < niteration; n++) { ... }\<close> of both solvers around a body
  that may fail an assertion or leave by \<open>break\<close>. The counter \<open>n\<close> keeps its value
  on \<open>break\<close> and is \<open>niteration\<close> (or its initial value, if that is larger) when the
  loop runs out.
\<close>

function sor_loop ::
  "(int \<Rightarrow> 'p sor_state \<Rightarrow> error + bool \<times> 'p sor_state) \<Rightarrow> int \<Rightarrow> int \<Rightarrow> 'p sor_state
     \<Rightarrow> error + 'p sor_state" where
  "sor_loop body niteration n st =
     (if n < niteration then
        (case body n st of
           Inl e \<Rightarrow> Inl e
         | Inr r \<Rightarrow>
             if fst r then Inr ((snd r)\<lparr>iteration := n\<rparr>)
             else sor_loop body niteration (n + 1) (snd r))
      else Inr (st\<lparr>iteration := n\<rparr>))"
  by pat_completeness auto
termination
  by (relation "measure (\<lambda>(body, niteration, n, st). nat (niteration - n))") auto

declare sor_loop.simps [simp del]

subsection \<open>One pass and one iteration of psi_sor_poisson\<close>

definition sor_pass_all ::
  "coords \<Rightarrow> params \<Rightarrow> ('p \<Rightarrow> int \<Rightarrow> real) \<Rightarrow> int \<Rightarrow> 'p sor_state \<Rightarrow> 'p sor_state" where
  "sor_pass_all cs prm rho_elec pass st =
     st\<lparr>psis := (\<lambda>p. fst (sor_pass cs prm (rho_elec p) (omega st) pass
                          (psis st p, snd (rnorm_local st p)))),
        rnorm_local := (\<lambda>p. (fst (rnorm_local st p),
                          snd (sor_pass cs prm (rho_elec p) (omega st) pass
                            (psis st p, snd (rnorm_local st p)))))\<rparr>"

text \<open>
  The relaxation parameter after a pass, and the two assertions on it. A vanishing
  denominator makes the quotient infinite in C, which passes \<open>assert(1.0 < omega)\<close>
  and fails \<open>assert(omega < 2.0)\<close>.
\<close>

definition omega_poisson :: "real \<Rightarrow> int \<Rightarrow> int \<Rightarrow> real \<Rightarrow> real" where
  "omega_poisson radius n pass om =
     (if n = 0 \<and> pass = 0 then 1 / (1 - 0.5 * radius * radius)
      else 1 / (1 - 0.25 * radius * radius * om))"

definition omega_denominator :: "real \<Rightarrow> int \<Rightarrow> int \<Rightarrow> real \<Rightarrow> real" where
  "omega_denominator radius n pass om =
     (if n = 0 \<and> pass = 0 then 1 - 0.5 * radius * radius
      else 1 - 0.25 * radius * radius * om)"

definition poisson_pass ::
  "coords \<Rightarrow> params \<Rightarrow> (('p \<Rightarrow> field) \<Rightarrow> ('p \<Rightarrow> field)) \<Rightarrow> ('p \<Rightarrow> int \<Rightarrow> real)
     \<Rightarrow> int \<Rightarrow> int \<Rightarrow> 'p sor_state \<Rightarrow> error + 'p sor_state" where
  "poisson_pass cs prm halo rho_elec n pass st =
     (let st1 = sor_pass_all cs prm rho_elec pass st;
          om = omega_poisson (sor_radius cs) n pass (omega st1)
      in if omega_denominator (sor_radius cs) n pass (omega st1) = 0
         then Inl (Assertion ''omega < 2.0'')
         else if \<not> 1 < om then Inl (Assertion ''1.0 < omega'')
         else if \<not> om < 2 then Inl (Assertion ''omega < 2.0'')
         else Inr (st1\<lparr>omega := om, psis := halo (psis st1)\<rparr>))"

text \<open>
  One trip through the body of the loop over \<open>n\<close>, with \<open>ncheck = 5\<close>. The flag of the
  result says whether the body left the loop by \<open>break\<close>.
\<close>

definition poisson_iteration ::
  "coords \<Rightarrow> params \<Rightarrow> 'p list \<Rightarrow> (('p \<Rightarrow> field) \<Rightarrow> ('p \<Rightarrow> field)) \<Rightarrow> ('p \<Rightarrow> int \<Rightarrow> real)
     \<Rightarrow> int \<Rightarrow> int \<Rightarrow> 'p sor_state \<Rightarrow> error + bool \<times> 'p sor_state" where
  "poisson_iteration cs prm procs halo rho_elec its n st =
     (case poisson_pass cs prm halo rho_elec n 0
             (st\<lparr>rnorm_local := (\<lambda>p. (fst (rnorm_local st p), 0))\<rparr>) of
        Inl e \<Rightarrow> Inl e
      | Inr st1 \<Rightarrow>
     (case poisson_pass cs prm halo rho_elec n 1 st1 of
        Inl e \<Rightarrow> Inl e
      | Inr st2 \<Rightarrow>
        if n mod 5 = 0 then
          (let st3 = allreduce_rnorm procs st2 in
           if snd (rnorm st3) < abstol prm
           then report_converged cs prm its ConvergedAbsolute n st3
           else if snd (rnorm st3) < abstol prm
                   \<or> snd (rnorm st3) < reltol prm * fst (rnorm st3)
           then report_converged cs prm its ConvergedRelative n st3
           else Inr (False, report_exceeded prm n st3))
        else Inr (False, report_exceeded prm n st2)))"

text \<open>
  The whole of \<open>psi_sor_poisson\<close>: the assertions on the geometry, the initial norm,
  \<open>omega = 1.0\<close>, and the loop. The C function returns 0 and leaves its results in the
  object; the model returns the final state.
\<close>

definition initial_state_poisson ::
  "coords \<Rightarrow> params \<Rightarrow> ('p \<Rightarrow> int \<Rightarrow> real) \<Rightarrow> ('p \<Rightarrow> field) \<Rightarrow> 'p sor_state" where
  "initial_state_poisson cs prm rho_elec psi0 =
     \<lparr>psis = psi0,
      rnorm_local = (\<lambda>p. (rnorm_local0_poisson cs prm (rho_elec p) (psi0 p), 0)),
      rnorm = (0, 0), omega = 1, iteration = 0, printed = []\<rparr>"

definition psi_sor_poisson ::
  "coords \<Rightarrow> params \<Rightarrow> 'p list \<Rightarrow> (('p \<Rightarrow> field) \<Rightarrow> ('p \<Rightarrow> field)) \<Rightarrow> ('p \<Rightarrow> int \<Rightarrow> real)
     \<Rightarrow> ('p \<Rightarrow> field) \<Rightarrow> int \<Rightarrow> error + 'p sor_state" where
  "psi_sor_poisson cs prm procs halo rho_elec psi0 its =
     (if \<not> nhalo cs \<ge> 1 then Inl (Assertion ''nhalo >= 1'')
      else if nlocal cs X mod 2 \<noteq> 0 then Inl (Assertion ''nlocal[X] % 2 == 0'')
      else if nlocal cs Y mod 2 \<noteq> 0 then Inl (Assertion ''nlocal[Y] % 2 == 0'')
      else if nlocal cs Z mod 2 \<noteq> 0 then Inl (Assertion ''nlocal[Z] % 2 == 0'')
      else sor_loop (poisson_iteration cs prm procs halo rho_elec its) (maxits prm) 0
             (initial_state_poisson cs prm rho_elec psi0))"

section \<open>Spatially varying permittivity: psi_sor_vare_poisson\<close>

text \<open>
  The differenced left-hand side at a site, accumulated as in the source: the Laplacian
  part with the permittivity \<open>eps0\<close> of the site, then the six additional terms of the
  generalised Poisson equation, each with the permittivity \<open>eps1\<close> that the callback
  \<open>fepsilon\<close> returns at a neighbouring address.
\<close>

definition depsi_vare :: "coords \<Rightarrow> (int \<Rightarrow> real) \<Rightarrow> field \<Rightarrow> int \<Rightarrow> real" where
  "depsi_vare cs fepsilon psi index =
     (case cs_strides cs of (xs, ys, zs) \<Rightarrow>
      let ns = cs_nsites cs;
          eps0 = fepsilon index;
          d0 = 0 + eps0 * (- 6 * psi (addr_rank0 ns index)
                   + psi (addr_rank0 ns (index + xs))
                   + psi (addr_rank0 ns (index - xs))
                   + psi (addr_rank0 ns (index + ys))
                   + psi (addr_rank0 ns (index - ys))
                   + psi (addr_rank0 ns (index + zs))
                   + psi (addr_rank0 ns (index - zs)));
          d1 = d0 + 0.25 * fepsilon (index + xs)
                 * (psi (addr_rank0 ns (index + xs)) - psi (addr_rank0 ns (index - xs)));
          d2 = d1 - 0.25 * fepsilon (index - xs)
                 * (psi (addr_rank0 ns (index + xs)) - psi (addr_rank0 ns (index - xs)));
          d3 = d2 + 0.25 * fepsilon (index + ys)
                 * (psi (addr_rank0 ns (index + ys)) - psi (addr_rank0 ns (index - ys)));
          d4 = d3 - 0.25 * fepsilon (index - ys)
                 * (psi (addr_rank0 ns (index + ys)) - psi (addr_rank0 ns (index - ys)));
          d5 = d4 + 0.25 * fepsilon (index + zs)
                 * (psi (addr_rank0 ns (index + zs)) - psi (addr_rank0 ns (index - zs)));
          d6 = d5 - 0.25 * fepsilon (index - zs)
                 * (psi (addr_rank0 ns (index + zs)) - psi (addr_rank0 ns (index - zs)))
      in d6)"

definition residual_vare ::
  "coords \<Rightarrow> params \<Rightarrow> (int \<Rightarrow> real) \<Rightarrow> (int \<Rightarrow> real) \<Rightarrow> field \<Rightarrow> int \<Rightarrow> real" where
  "residual_vare cs prm fepsilon rho_elec psi index =
     depsi_vare cs fepsilon psi index + unit_charge prm * beta prm * rho_elec index"

definition rnorm_local0_vare ::
  "coords \<Rightarrow> params \<Rightarrow> (int \<Rightarrow> real) \<Rightarrow> (int \<Rightarrow> real) \<Rightarrow> field \<Rightarrow> real" where
  "rnorm_local0_vare cs prm fepsilon rho_elec psi =
     foldl (\<lambda>acc s. acc + \<bar>residual_vare cs prm fepsilon rho_elec psi (site_index cs s)\<bar>)
       0 (all_sites cs)"

definition vare_site ::
  "coords \<Rightarrow> params \<Rightarrow> (int \<Rightarrow> real) \<Rightarrow> (int \<Rightarrow> real) \<Rightarrow> real \<Rightarrow> field \<times> real \<Rightarrow> int
     \<Rightarrow> field \<times> real" where
  "vare_site cs prm fepsilon rho_elec om st index =
     (case st of (psi, rn) \<Rightarrow>
        let residual = residual_vare cs prm fepsilon rho_elec psi index;
            a = addr_rank0 (cs_nsites cs) index
        in (psi(a := psi a - om * residual / (- 6 * fepsilon index)), rn + \<bar>residual\<bar>))"

definition vare_sweep ::
  "coords \<Rightarrow> params \<Rightarrow> (int \<Rightarrow> real) \<Rightarrow> (int \<Rightarrow> real) \<Rightarrow> real \<Rightarrow> int \<Rightarrow> field \<times> real
     \<Rightarrow> field \<times> real" where
  "vare_sweep cs prm fepsilon rho_elec om pass st =
     foldl (\<lambda>st s. vare_site cs prm fepsilon rho_elec om st (site_index cs s)) st
       (pass_sites cs pass)"

text \<open>One pass on every process, followed by the halo exchange; \<open>omega\<close> is not touched.\<close>

definition vare_pass ::
  "coords \<Rightarrow> params \<Rightarrow> (('p \<Rightarrow> field) \<Rightarrow> ('p \<Rightarrow> field)) \<Rightarrow> ('p \<Rightarrow> int \<Rightarrow> real)
     \<Rightarrow> ('p \<Rightarrow> int \<Rightarrow> real) \<Rightarrow> int \<Rightarrow> 'p sor_state \<Rightarrow> 'p sor_state" where
  "vare_pass cs prm halo fepsilon rho_elec pass st =
     st\<lparr>psis := halo (\<lambda>p. fst (vare_sweep cs prm (fepsilon p) (rho_elec p) (omega st) pass
                                (psis st p, snd (rnorm_local st p)))),
        rnorm_local := (\<lambda>p. (fst (rnorm_local st p),
                          snd (vare_sweep cs prm (fepsilon p) (rho_elec p) (omega st) pass
                            (psis st p, snd (rnorm_local st p)))))\<rparr>"

text \<open>
  One trip through the body of the loop over \<open>n\<close>, with \<open>ncheck = 1\<close>: both passes, the
  relaxation parameter recomputed once, and the residual check, inside which the report
  on running out of iterations is made. Nothing is asserted of the parameter; an
  infinite one, from a vanishing denominator, is not told apart in the reals.
\<close>

definition vare_iteration ::
  "coords \<Rightarrow> params \<Rightarrow> 'p list \<Rightarrow> (('p \<Rightarrow> field) \<Rightarrow> ('p \<Rightarrow> field)) \<Rightarrow> ('p \<Rightarrow> int \<Rightarrow> real)
     \<Rightarrow> ('p \<Rightarrow> int \<Rightarrow> real) \<Rightarrow> int \<Rightarrow> int \<Rightarrow> 'p sor_state \<Rightarrow> error + bool \<times> 'p sor_state" where
  "vare_iteration cs prm procs halo fepsilon rho_elec its n st =
     (let st1 = vare_pass cs prm halo fepsilon rho_elec 0
                  (st\<lparr>rnorm_local := (\<lambda>p. (fst (rnorm_local st p), 0))\<rparr>);
          st2 = vare_pass cs prm halo fepsilon rho_elec 1 st1;
          st3 = st2\<lparr>omega := 1 / (1 - 0.25 * sor_radius cs * sor_radius cs * omega st2)\<rparr>
      in if n mod 1 = 0 then
           (let st4 = allreduce_rnorm procs st3 in
            if snd (rnorm st4) < abstol prm
            then report_converged cs prm its ConvergedAbsolute n st4
            else if snd (rnorm st4) < reltol prm * fst (rnorm st4)
            then report_converged cs prm its ConvergedRelative n st4
            else Inr (False, report_exceeded prm n st4))
         else Inr (False, st3))"

definition initial_state_vare ::
  "coords \<Rightarrow> params \<Rightarrow> ('p \<Rightarrow> int \<Rightarrow> real) \<Rightarrow> ('p \<Rightarrow> int \<Rightarrow> real) \<Rightarrow> ('p \<Rightarrow> field)
     \<Rightarrow> 'p sor_state" where
  "initial_state_vare cs prm fepsilon rho_elec psi0 =
     \<lparr>psis = psi0,
      rnorm_local = (\<lambda>p. (rnorm_local0_vare cs prm (fepsilon p) (rho_elec p) (psi0 p), 0)),
      rnorm = (0, 0), omega = 1, iteration = 0, printed = []\<rparr>"

text \<open>
  The whole of \<open>psi_sor_vare_poisson\<close>. The assertions \<open>assert(obj)\<close> and
  \<open>assert(fepsilon)\<close> on the pointers hold of any argument of the model; the halo width
  is not read.
\<close>

definition psi_sor_vare_poisson ::
  "coords \<Rightarrow> params \<Rightarrow> 'p list \<Rightarrow> (('p \<Rightarrow> field) \<Rightarrow> ('p \<Rightarrow> field)) \<Rightarrow> ('p \<Rightarrow> int \<Rightarrow> real)
     \<Rightarrow> ('p \<Rightarrow> int \<Rightarrow> real) \<Rightarrow> ('p \<Rightarrow> field) \<Rightarrow> int \<Rightarrow> error + 'p sor_state" where
  "psi_sor_vare_poisson cs prm procs halo fepsilon rho_elec psi0 its =
     (if nlocal cs X mod 2 \<noteq> 0 then Inl (Assertion ''nlocal[X] % 2 == 0'')
      else if nlocal cs Y mod 2 \<noteq> 0 then Inl (Assertion ''nlocal[Y] % 2 == 0'')
      else if nlocal cs Z mod 2 \<noteq> 0 then Inl (Assertion ''nlocal[Z] % 2 == 0'')
      else sor_loop (vare_iteration cs prm procs halo fepsilon rho_elec its) (maxits prm) 0
             (initial_state_vare cs prm fepsilon rho_elec psi0))"

section \<open>Notions used to state the properties\<close>

text \<open>
  The global extents are integers: \<open>ltot\<close> holds the values of \<open>ntotal\<close> as doubles,
  and the local extents divide the global ones among the process grid exactly.
\<close>

definition integral_extents :: "coords \<Rightarrow> bool" where
  "integral_extents cs =
     (ltot cs X = of_int (ntotal cs X) \<and> ltot cs Y = of_int (ntotal cs Y)
      \<and> ltot cs Z = of_int (ntotal cs Z))"

definition exact_decomposition :: "coords \<Rightarrow> bool" where
  "exact_decomposition cs =
     (ntotal cs X = nlocal cs X * cartsz cs X \<and> ntotal cs Y = nlocal cs Y * cartsz cs Y
      \<and> ntotal cs Z = nlocal cs Z * cartsz cs Z)"

definition even_extents :: "coords \<Rightarrow> bool" where
  "even_extents cs =
     (nlocal cs X mod 2 = 0 \<and> nlocal cs Y mod 2 = 0 \<and> nlocal cs Z mod 2 = 0)"

text \<open>The interior sites of a subdomain and the checkerboard colour of a site.\<close>

definition interior :: "coords \<Rightarrow> (int \<times> int \<times> int) set" where
  "interior cs =
     {(ic, jc, kc). 1 \<le> ic \<and> ic \<le> nlocal cs X \<and> 1 \<le> jc \<and> jc \<le> nlocal cs Y
        \<and> 1 \<le> kc \<and> kc \<le> nlocal cs Z}"

definition colour :: "int \<times> int \<times> int \<Rightarrow> int" where
  "colour s = (case s of (i, j, k) \<Rightarrow> (i + j + k) mod 2)"

text \<open>The sites a subdomain stores: the interior and the halo around it.\<close>

definition storage :: "coords \<Rightarrow> (int \<times> int \<times> int) set" where
  "storage cs =
     {(ic, jc, kc). 1 - nhalo cs \<le> ic \<and> ic \<le> nlocal cs X + nhalo cs
        \<and> 1 - nhalo cs \<le> jc \<and> jc \<le> nlocal cs Y + nhalo cs
        \<and> 1 - nhalo cs \<le> kc \<and> kc \<le> nlocal cs Z + nhalo cs}"

text \<open>Two sites of one subdomain are neighbours in the 6-point stencil.\<close>

definition stencil_neighbours :: "int \<times> int \<times> int \<Rightarrow> int \<times> int \<times> int \<Rightarrow> bool" where
  "stencil_neighbours s t =
     (case s of (i, j, k) \<Rightarrow> case t of (i', j', k') \<Rightarrow>
        \<bar>i - i'\<bar> + \<bar>j - j'\<bar> + \<bar>k - k'\<bar> = 1)"

text \<open>The six addresses, besides its own, that the stencil reads at a site.\<close>

definition stencil_addresses :: "coords \<Rightarrow> int \<Rightarrow> int set" where
  "stencil_addresses cs index =
     (case cs_strides cs of (xs, ys, zs) \<Rightarrow>
        {index + xs, index - xs, index + ys, index - ys, index + zs, index - zs})"

text \<open>
  Modelled from the spec: the local-to-global offset of a process (\<open>cs_nlocal_offset\<close>
  of coords.c, not among the sources) is its Cartesian coordinate times the local extent
  on each axis. A process is named by its Cartesian coordinates in the process grid.
\<close>

type_synonym proc = "int \<times> int \<times> int"

fun component :: "axis \<Rightarrow> int \<times> int \<times> int \<Rightarrow> int" where
  "component X (i, j, k) = i"
| "component Y (i, j, k) = j"
| "component Z (i, j, k) = k"

fun with_component :: "axis \<Rightarrow> int \<Rightarrow> int \<times> int \<times> int \<Rightarrow> int \<times> int \<times> int" where
  "with_component X v (i, j, k) = (v, j, k)"
| "with_component Y v (i, j, k) = (i, v, k)"
| "with_component Z v (i, j, k) = (i, j, v)"

definition noffset :: "coords \<Rightarrow> proc \<Rightarrow> axis \<Rightarrow> int" where
  "noffset cs p a = component a p * nlocal cs a"

definition global_site :: "coords \<Rightarrow> proc \<Rightarrow> int \<times> int \<times> int \<Rightarrow> int \<times> int \<times> int" where
  "global_site cs p s =
     (noffset cs p X + component X s, noffset cs p Y + component Y s,
      noffset cs p Z + component Z s)"

text \<open>
  Two global positions are neighbours in the stencil when they differ by one step along
  one axis, where on a periodic axis the first and the last position are one step apart.
\<close>

definition axis_adjacent :: "coords \<Rightarrow> axis \<Rightarrow> int \<Rightarrow> int \<Rightarrow> bool" where
  "axis_adjacent cs a g g' =
     (\<bar>g - g'\<bar> = 1 \<or> (periodic cs a \<and> \<bar>g - g'\<bar> = ntotal cs a - 1))"

definition global_neighbours ::
  "coords \<Rightarrow> int \<times> int \<times> int \<Rightarrow> int \<times> int \<times> int \<Rightarrow> bool" where
  "global_neighbours cs g g' =
     (case g of (x, y, z) \<Rightarrow> case g' of (x', y', z') \<Rightarrow>
        (axis_adjacent cs X x x' \<and> y = y' \<and> z = z')
      \<or> (x = x' \<and> axis_adjacent cs Y y y' \<and> z = z')
      \<or> (x = x' \<and> y = y' \<and> axis_adjacent cs Z z z'))"

text \<open>
  The flux-conservative operator of the spec: on each of the six faces the mean of the
  permittivity at the two adjacent cell centres times the difference of the potential
  across the face.
\<close>

definition depsi_flux_conservative :: "coords \<Rightarrow> (int \<Rightarrow> real) \<Rightarrow> field \<Rightarrow> int \<Rightarrow> real" where
  "depsi_flux_conservative cs fepsilon psi index =
     (case cs_strides cs of (xs, ys, zs) \<Rightarrow>
        (\<Sum>d \<leftarrow> [xs, - xs, ys, - ys, zs, - zs].
           (1 / 2) * (fepsilon index + fepsilon (index + d)) * (psi (index + d) - psi index)))"

text \<open>The two passes of one iteration of \<open>psi_sor_vare_poisson\<close>, before \<open>omega\<close> is recomputed.\<close>

definition vare_two_passes ::
  "coords \<Rightarrow> params \<Rightarrow> (('p \<Rightarrow> field) \<Rightarrow> ('p \<Rightarrow> field)) \<Rightarrow> ('p \<Rightarrow> int \<Rightarrow> real)
     \<Rightarrow> ('p \<Rightarrow> int \<Rightarrow> real) \<Rightarrow> 'p sor_state \<Rightarrow> 'p sor_state" where
  "vare_two_passes cs prm halo fepsilon rho_elec st =
     vare_pass cs prm halo fepsilon rho_elec 1
       (vare_pass cs prm halo fepsilon rho_elec 0
          (st\<lparr>rnorm_local := (\<lambda>p. (fst (rnorm_local st p), 0))\<rparr>))"

section \<open>Halo exchange\<close>

text \<open>
  Modelled from the spec: the halo exchange of a field (\<open>field_halo\<close>, called through
  \<open>psi_halo_psi\<close>), \<open>cs_index_to_ijk\<close> and \<open>cs_cart_neighb\<close> live in field.c, psi.c and
  coords.c, which are not among the sources. The spec says:
  \<^item> \<open>index_to_coords\<close> is the inverse of \<open>index\<close> on the local coordinates including the
    halo;
  \<^item> \<open>neighbor(axis, direction)\<close> is the adjacent process in the Cartesian topology,
    wrapping when the axis is periodic, otherwise "no neighbor" at the edge of the domain;
  \<^item> the exchange takes the three axes in the order X, Y, Z; on each axis every process
    sends its owned boundary slab of the communicated width to its forward and backward
    neighbour and receives the neighbour's slab into its ghost region, and an axis's
    exchange sees the ghosts already updated by the previous axes; a process that is its
    own neighbour copies locally.
  A process is named by its Cartesian coordinates; the value at a site may have any
  number of components.
\<close>

datatype direction = FORWARD | BACKWARD

definition cs_index_to_ijk :: "coords \<Rightarrow> int \<Rightarrow> int \<times> int \<times> int" where
  "cs_index_to_ijk cs index =
     (case cs_strides cs of (xs, ys, zs) \<Rightarrow>
        (1 - nhalo cs + index div xs, 1 - nhalo cs + (index mod xs) div ys,
         1 - nhalo cs + (index mod ys) div zs))"

definition cs_cart_neighb :: "coords \<Rightarrow> proc \<Rightarrow> direction \<Rightarrow> axis \<Rightarrow> proc option" where
  "cs_cart_neighb cs p d a =
     (let c = component a p + (case d of FORWARD \<Rightarrow> 1 | BACKWARD \<Rightarrow> - 1)
      in if 0 \<le> c \<and> c < cartsz cs a then Some (with_component a c p)
         else if periodic cs a then Some (with_component a (c mod cartsz cs a) p)
         else None)"

text \<open>
  The sites of the slabs exchanged along an axis: interior on the axes still to come,
  interior or ghost within the communicated width on the axes already exchanged.
\<close>

definition in_slab :: "coords \<Rightarrow> int \<Rightarrow> axis \<Rightarrow> int \<times> int \<times> int \<Rightarrow> bool" where
  "in_slab cs w a s =
     (case s of (i, j, k) \<Rightarrow>
        (case a of
           X \<Rightarrow> 1 \<le> j \<and> j \<le> nlocal cs Y \<and> 1 \<le> k \<and> k \<le> nlocal cs Z
         | Y \<Rightarrow> 1 - w \<le> i \<and> i \<le> nlocal cs X + w \<and> 1 \<le> k \<and> k \<le> nlocal cs Z
         | Z \<Rightarrow> 1 - w \<le> i \<and> i \<le> nlocal cs X + w \<and> 1 - w \<le> j \<and> j \<le> nlocal cs Y + w))"

definition halo_axis ::
  "coords \<Rightarrow> int \<Rightarrow> axis \<Rightarrow> (proc \<Rightarrow> int \<Rightarrow> 'v) \<Rightarrow> (proc \<Rightarrow> int \<Rightarrow> 'v)" where
  "halo_axis cs w a f =
     (\<lambda>p index.
        let s = cs_index_to_ijk cs index; c = component a s
        in if index < 0 \<or> cs_nsites cs \<le> index \<or> \<not> in_slab cs w a s then f p index
           else if 1 - w \<le> c \<and> c \<le> 0 then
             (case cs_cart_neighb cs p BACKWARD a of
                None \<Rightarrow> f p index
              | Some q \<Rightarrow> f q (site_index cs (with_component a (c + nlocal cs a) s)))
           else if nlocal cs a + 1 \<le> c \<and> c \<le> nlocal cs a + w then
             (case cs_cart_neighb cs p FORWARD a of
                None \<Rightarrow> f p index
              | Some q \<Rightarrow> f q (site_index cs (with_component a (c - nlocal cs a) s)))
           else f p index)"

definition field_halo :: "coords \<Rightarrow> int \<Rightarrow> (proc \<Rightarrow> int \<Rightarrow> 'v) \<Rightarrow> (proc \<Rightarrow> int \<Rightarrow> 'v)" where
  "field_halo cs w f = halo_axis cs w Z (halo_axis cs w Y (halo_axis cs w X f))"

text \<open>
  The owner of a ghost coordinate on one axis and the mirrored local coordinate there:
  the coordinate itself on the process itself when interior, otherwise the coordinate
  shifted by the local extent on the backward or forward neighbour, if there is one.
\<close>

definition source_axis :: "coords \<Rightarrow> axis \<Rightarrow> proc \<Rightarrow> int \<Rightarrow> (proc \<times> int) option" where
  "source_axis cs a p c =
     (if c < 1 then map_option (\<lambda>q. (q, c + nlocal cs a)) (cs_cart_neighb cs p BACKWARD a)
      else if nlocal cs a < c
      then map_option (\<lambda>q. (q, c - nlocal cs a)) (cs_cart_neighb cs p FORWARD a)
      else Some (p, c))"

definition halo_source ::
  "coords \<Rightarrow> proc \<Rightarrow> int \<times> int \<times> int \<Rightarrow> (proc \<times> int \<times> int \<times> int) option" where
  "halo_source cs p s =
     (case s of (i, j, k) \<Rightarrow>
        case source_axis cs Z p k of None \<Rightarrow> None | Some (pz, k') \<Rightarrow>
        case source_axis cs Y pz j of None \<Rightarrow> None | Some (py, j') \<Rightarrow>
        case source_axis cs X py i of None \<Rightarrow> None | Some (px, i') \<Rightarrow>
          Some (px, (i', j', k')))"

text \<open>
  The sites within the communicated width of the interior, the processes of the grid,
  and a geometry with positive extents whose halo holds the communicated width.
\<close>

definition comm_region :: "coords \<Rightarrow> int \<Rightarrow> (int \<times> int \<times> int) set" where
  "comm_region cs w =
     {(i, j, k). 1 - w \<le> i \<and> i \<le> nlocal cs X + w \<and> 1 - w \<le> j \<and> j \<le> nlocal cs Y + w
        \<and> 1 - w \<le> k \<and> k \<le> nlocal cs Z + w}"

definition in_grid :: "coords \<Rightarrow> proc \<Rightarrow> bool" where
  "in_grid cs p =
     (case p of (a, b, c) \<Rightarrow>
        0 \<le> a \<and> a < cartsz cs X \<and> 0 \<le> b \<and> b < cartsz cs Y \<and> 0 \<le> c \<and> c < cartsz cs Z)"

definition halo_geometry :: "coords \<Rightarrow> int \<Rightarrow> bool" where
  "halo_geometry cs w =
     (0 \<le> w \<and> w \<le> nhalo cs \<and> w \<le> nlocal cs X \<and> w \<le> nlocal cs Y \<and> w \<le> nlocal cs Z
      \<and> 1 \<le> nlocal cs X \<and> 1 \<le> nlocal cs Y \<and> 1 \<le> nlocal cs Z)"

text \<open>The global index, counted from 0, of a local coordinate on one axis.\<close>

definition global_index :: "coords \<Rightarrow> axis \<Rightarrow> proc \<Rightarrow> int \<Rightarrow> int" where
  "global_index cs a p c = noffset cs p a + c - 1"

section \<open>A small system\<close>

text \<open>
  One process owns a block of 2 x 2 x 2 sites with a halo of width one; no axis is
  periodic, so the process has no neighbour and the halo exchange leaves its field as
  it is. Potential and charge density vanish, as they do before any charge is set.
\<close>

definition cs_small :: coords where
  "cs_small = \<lparr>ntotal = (\<lambda>a. 2), ltot = (\<lambda>a. 2), nlocal = (\<lambda>a. 2), nhalo = 1,
                cartsz = (\<lambda>a. 1), periodic = (\<lambda>a. False)\<rparr>"

text \<open>
  Two such blocks side by side along \<open>X\<close> on two processes, periodic on every axis.
\<close>

definition cs_pair :: coords where
  "cs_pair = \<lparr>ntotal = (\<lambda>a. if a = X then 4 else 2), ltot = (\<lambda>a. if a = X then 4 else 2),
               nlocal = (\<lambda>a. 2), nhalo = 1, cartsz = (\<lambda>a. if a = X then 2 else 1),
               periodic = (\<lambda>a. True)\<rparr>"

definition prm_small :: params where
  "prm_small = \<lparr>epsilon = 1, reltol = 1 / 10000000, abstol = 1 / 1000000000, maxits = 10,
                 beta = 1, unit_charge = 1, nfreq = 1\<rparr>"

definition no_exchange :: "(unit \<Rightarrow> field) \<Rightarrow> (unit \<Rightarrow> field)" where
  "no_exchange f = f"

definition zero_field :: "unit \<Rightarrow> field" where
  "zero_field p index = 0"

definition one_field :: "unit \<Rightarrow> field" where
  "one_field p index = 1"

text \<open>The state in which both solvers leave the small system: at rest after one iteration.\<close>

definition omega_small_poisson :: real where
  "omega_small_poisson =
     omega_poisson (sor_radius cs_small) 0 1 (omega_poisson (sor_radius cs_small) 0 0 1)"

definition omega_small_vare :: real where
  "omega_small_vare = 1 / (1 - 0.25 * sor_radius cs_small * sor_radius cs_small * 1)"

definition solved_small :: "real \<Rightarrow> message \<Rightarrow> unit sor_state" where
  "solved_small om msg =
     \<lparr>psis = zero_field, rnorm_local = (\<lambda>p. (0, 0)), rnorm = (0, 0), omega = om,
      iteration = 0, printed = [msg]\<rparr>"

text \<open>
  A permittivity that rises along \<open>X\<close> through the site \<open>(1, 1, 1)\<close> of the small system
  (address 21, with neighbours 5 and 37 along \<open>X\<close>), and a potential that is 1 at the
  neighbour \<open>(2, 1, 1)\<close> and vanishes elsewhere.
\<close>

definition eps_step :: "int \<Rightarrow> real" where
  "eps_step index = (if index = 37 then 4 else if index = 5 then 1 else 2)"

definition psi_spike :: "int \<Rightarrow> real" where
  "psi_spike index = (if index = 37 then 1 else 0)"

text \<open>
  The small system with a halo of width zero, and the small system with the lengths
  \<open>ltot\<close> set to one, which no decomposition of a lattice into blocks of two sites gives.
\<close>

definition cs_nohalo :: coords where
  "cs_nohalo = cs_small\<lparr>nhalo := 0\<rparr>"

definition cs_unit :: coords where
  "cs_unit = cs_small\<lparr>ltot := (\<lambda>a. 1)\<rparr>"

text \<open>
  Parameters under which the system at rest never meets a tolerance (the absolute
  tolerance is zero) and a single iteration is allowed, and parameters with \<open>nfreq = 0\<close>.
\<close>

definition prm_strict :: params where
  "prm_strict = prm_small\<lparr>abstol := 0, maxits := 1\<rparr>"

definition prm_nofreq :: params where
  "prm_nofreq = prm_small\<lparr>nfreq := 0\<rparr>"

definition exhausted_small :: "real \<Rightarrow> unit sor_state" where
  "exhausted_small om =
     \<lparr>psis = zero_field, rnorm_local = (\<lambda>p. (0, 0)), rnorm = (0, 0), omega = om,
      iteration = 1, printed = [Exceeded 1 0 0]\<rparr>"

definition rest_state :: "real \<Rightarrow> unit sor_state" where
  "rest_state om =
     \<lparr>psis = zero_field, rnorm_local = (\<lambda>p. (0, 0)), rnorm = (0, 0), omega = om,
      iteration = 0, printed = []\<rparr>"

text \<open>The small system with three sites along \<open>X\<close>.\<close>

definition cs_odd :: coords where
  "cs_odd = cs_small\<lparr>ntotal := (\<lambda>a. if a = X then 3 else 2),
                      ltot := (\<lambda>a. if a = X then 3 else 2),
                      nlocal := (\<lambda>a. if a = X then 3 else 2)\<rparr>"

text \<open>
  The small system with a unit charge at the site \<open>(1, 1, 1)\<close> (address 21), a
  permittivity of one millionth and an absolute tolerance of 2. The callback
  \<open>eps_thin\<close> returns that permittivity at every site. \<open>psi_thin_1\<close> is the potential
  after the first pass from rest and \<open>psi_thin_2 om\<close> the potential after a second pass
  with the relaxation parameter \<open>om\<close>, in which the three interior neighbours of the
  charged site (addresses 22, 25 and 37) are relaxed.
\<close>

definition prm_thin :: params where
  "prm_thin = \<lparr>epsilon = 1 / 1000000, reltol = 1 / 10000000, abstol = 2, maxits = 10,
                beta = 1, unit_charge = 1, nfreq = 1\<rparr>"

definition rho_point :: "unit \<Rightarrow> int \<Rightarrow> real" where
  "rho_point p index = (if index = 21 then 1 else 0)"

definition eps_thin :: "unit \<Rightarrow> int \<Rightarrow> real" where
  "eps_thin p index = epsilon prm_thin"

definition psi_thin_1 :: field where
  "psi_thin_1 index = (if index = 21 then 1000000 / 6 else 0)"

definition psi_thin_2 :: "real \<Rightarrow> field" where
  "psi_thin_2 om index =
     (if index = 21 then 1000000 / 6
      else if index = 22 \<or> index = 25 \<or> index = 37 then om * (1000000 / 36)
      else 0)"

definition solved_thin :: "real \<Rightarrow> real \<Rightarrow> unit sor_state" where
  "solved_thin om om' =
     \<lparr>psis = (\<lambda>p. psi_thin_2 om), rnorm_local = (\<lambda>p. (1, 3 / 2)), rnorm = (1, 3 / 2),
      omega = om', iteration = 0, printed = [ConvergedAbsolute (3 / 16) 0]\<rparr>"

text \<open>
  The small system with the unit charge at \<open>(1, 1, 1)\<close>, unit permittivity and two
  iterations allowed. \<open>omega_two_1\<close> to \<open>omega_two_4\<close> are the relaxation parameters of
  \<open>psi_sor_poisson\<close> after its first four passes; \<open>psi_two_1\<close> to \<open>psi_two_4\<close> are the
  potentials after these passes, started from rest, in terms of the parameters the passes
  were made with; \<open>residual_two\<close> is the residual the fourth pass finds at each of the
  sites \<open>(1, 1, 2)\<close>, \<open>(1, 2, 1)\<close> and \<open>(2, 1, 1)\<close> (addresses 22, 25 and 37),
  \<open>norm_two\<close> the norm accumulated over the second sweep, and \<open>two_sweeps\<close> the state
  after the second sweep. With a single iteration allowed (\<open>prm_one\<close>), \<open>one_sweep\<close> is
  the state after that iteration, in terms of the parameter its second pass was made
  with and the parameter it ends with.
\<close>

definition prm_two :: params where
  "prm_two = prm_small\<lparr>maxits := 2\<rparr>"

definition omega_two_1 :: real where
  "omega_two_1 = omega_poisson (sor_radius cs_small) 0 0 1"

definition omega_two_2 :: real where
  "omega_two_2 = omega_poisson (sor_radius cs_small) 0 1 omega_two_1"

definition omega_two_3 :: real where
  "omega_two_3 = omega_poisson (sor_radius cs_small) 1 0 omega_two_2"

definition omega_two_4 :: real where
  "omega_two_4 = omega_poisson (sor_radius cs_small) 1 1 omega_two_3"

definition psi_two_1 :: field where
  "psi_two_1 index = (if index = 21 then 1 / 6 else 0)"

definition psi_two_2 :: "real \<Rightarrow> field" where
  "psi_two_2 om1 index =
     (if index = 21 then 1 / 6
      else if index = 22 \<or> index = 25 \<or> index = 37 then om1 / 36
      else 0)"

definition psi_two_3 :: "real \<Rightarrow> real \<Rightarrow> field" where
  "psi_two_3 om1 om2 index =
     (if index = 21 then 1 / 6 + om2 * (om1 / 12) / 6
      else if index = 22 \<or> index = 25 \<or> index = 37 then om1 / 36
      else if index = 26 \<or> index = 38 \<or> index = 41 then om2 * (om1 / 18) / 6
      else 0)"

definition residual_two :: "real \<Rightarrow> real \<Rightarrow> real" where
  "residual_two om1 om2 =
     2 * (om2 * (om1 / 18) / 6) + (1 / 6 + om2 * (om1 / 12) / 6) - 6 * (om1 / 36)"

definition psi_two_4 :: "real \<Rightarrow> real \<Rightarrow> real \<Rightarrow> field" where
  "psi_two_4 om1 om2 om3 index =
     (if index = 21 then 1 / 6 + om2 * (om1 / 12) / 6
      else if index = 22 \<or> index = 25 \<or> index = 37
      then om1 / 36 + om3 * residual_two om1 om2 / 6
      else if index = 26 \<or> index = 38 \<or> index = 41 then om2 * (om1 / 18) / 6
      else if index = 42 then om3 * (3 * (om2 * (om1 / 18) / 6)) / 6
      else 0)"

definition norm_two :: "real \<Rightarrow> real \<Rightarrow> real" where
  "norm_two om1 om2 =
     \<bar>om1 / 12\<bar> + 3 * \<bar>om1 / 18\<bar> + 3 * \<bar>residual_two om1 om2\<bar>
     + \<bar>3 * (om2 * (om1 / 18) / 6)\<bar>"

definition prm_one :: params where
  "prm_one = prm_two\<lparr>maxits := 1\<rparr>"

definition one_sweep :: "real \<Rightarrow> real \<Rightarrow> unit sor_state" where
  "one_sweep om1 om' =
     \<lparr>psis = (\<lambda>p. psi_two_2 om1), rnorm_local = (\<lambda>p. (1, 3 / 2)), rnorm = (1, 3 / 2),
      omega = om', iteration = 1, printed = [Exceeded 1 1 (3 / 2)]\<rparr>"

definition two_sweeps :: "unit sor_state" where
  "two_sweeps =
     \<lparr>psis = (\<lambda>p. psi_two_4 omega_two_1 omega_two_2 omega_two_3),
      rnorm_local = (\<lambda>p. (1, norm_two omega_two_1 omega_two_2)), rnorm = (1, 3 / 2),
      omega = omega_two_4, iteration = 2, printed = [Exceeded 2 1 (3 / 2)]\<rparr>"

text \<open>A field on the pair of blocks that tells the processes and the sites apart.\<close>

definition rank_field :: "proc \<Rightarrow> int \<Rightarrow> real" where
  "rank_field p index = of_int (100 * component X p + index)"

text \<open>
  Charges on the pair of blocks: at the site \<open>(1, 1, 1)\<close> (address 21) a unit charge on
  the first block and twice that on the second.
\<close>

definition rho_pair :: "proc \<Rightarrow> int \<Rightarrow> real" where
  "rho_pair p index = (if index = 21 then (if p = (0, 0, 0) then 1 else 2) else 0)"

section \<open>Properties\<close>

lemma foldl_add_sum_list:
  "foldl (\<lambda>acc s. acc + g s) a xs = a + sum_list (map g xs)" for a :: real
  by (induction xs arbitrary: a) simp_all

lemma sum_list_upto_int: "sum_list (map g [1..n]) = (\<Sum>i = 1..n. g i)" for g :: "int \<Rightarrow> real"
  by (simp add: sum_list_distinct_conv_sum_set)

lemma sum_list_concat_map:
  "sum_list (concat (map h xs)) = sum_list (map (\<lambda>x. sum_list (h x)) xs)" for h :: "'a \<Rightarrow> real list"
  by (induction xs) simp_all

lemma sum_list_all_sites:
  "sum_list (map g (all_sites cs)) =
     (\<Sum>ic = 1..nlocal cs X. \<Sum>jc = 1..nlocal cs Y. \<Sum>kc = 1..nlocal cs Z. g (ic, jc, kc))"
  for g :: "int \<times> int \<times> int \<Rightarrow> real"
  unfolding all_sites_def
  by (simp add: map_concat comp_def sum_list_concat_map sum_list_distinct_conv_sum_set)

lemma rnorm_local0_poisson_sum:
  "rnorm_local0_poisson cs prm rho_elec psi =
     (\<Sum>ic = 1..nlocal cs X. \<Sum>jc = 1..nlocal cs Y. \<Sum>kc = 1..nlocal cs Z.
        \<bar>epsilon prm * dpsi_stencil cs psi (cs_index cs ic jc kc)
          + unit_charge prm * beta prm * rho_elec (cs_index cs ic jc kc)\<bar>)"
  unfolding rnorm_local0_poisson_def foldl_add_sum_list
  by (simp add: sum_list_all_sites site_index_def residual_poisson_def)

lemma set_kc_loop:
  "set (kc_loop kst nz) = {kc. kst \<le> kc \<and> kc \<le> nz \<and> (kc - kst) mod 2 = 0}"
proof (induction kst nz rule: kc_loop.induct)
  case (1 kc nz)
  show ?case
  proof (cases "kc \<le> nz")
    case True
    have "set (kc_loop kc nz) = insert kc (set (kc_loop (kc + 2) nz))"
      using True by (subst kc_loop.simps) simp
    also have "\<dots> = insert kc {k. kc + 2 \<le> k \<and> k \<le> nz \<and> (k - (kc + 2)) mod 2 = 0}"
      using 1 True by simp
    also have "\<dots> = {k. kc \<le> k \<and> k \<le> nz \<and> (k - kc) mod 2 = 0}"
      using True by (auto; presburger)
    finally show ?thesis .
  next
    case False
    then show ?thesis by (subst kc_loop.simps) auto
  qed
qed

lemma distinct_kc_loop: "distinct (kc_loop kst nz)"
proof (induction kst nz rule: kc_loop.induct)
  case (1 kc nz)
  show ?case
  proof (cases "kc \<le> nz")
    case True
    then show ?thesis
      using 1 by (subst kc_loop.simps) (simp add: set_kc_loop)
  next
    case False
    then show ?thesis by (subst kc_loop.simps) simp
  qed
qed

lemma set_pass_sites:
  "set (pass_sites cs pass) =
     {(ic, jc, kc). 1 \<le> ic \<and> ic \<le> nlocal cs X \<and> 1 \<le> jc \<and> jc \<le> nlocal cs Y
        \<and> 1 + (ic + jc + pass) mod 2 \<le> kc \<and> kc \<le> nlocal cs Z
        \<and> (kc - (1 + (ic + jc + pass) mod 2)) mod 2 = 0}"
  unfolding pass_sites_def by (auto simp: set_kc_loop image_iff)

lemma pass_sites_colour:
  assumes "pass = 0 \<or> pass = 1"
  shows "set (pass_sites cs pass) =
     {(ic, jc, kc). 1 \<le> ic \<and> ic \<le> nlocal cs X \<and> 1 \<le> jc \<and> jc \<le> nlocal cs Y
        \<and> 1 \<le> kc \<and> kc \<le> nlocal cs Z \<and> (ic + jc + kc) mod 2 = (1 + pass) mod 2}"
  unfolding set_pass_sites using assms
  by (auto; presburger)

lemma set_all_sites:
  "set (all_sites cs) =
     {(ic, jc, kc). 1 \<le> ic \<and> ic \<le> nlocal cs X \<and> 1 \<le> jc \<and> jc \<le> nlocal cs Y
        \<and> 1 \<le> kc \<and> kc \<le> nlocal cs Z}"
  unfolding all_sites_def by (auto simp: image_iff)

lemma distinct_concat_map:
  assumes "distinct xs" and "\<And>x. x \<in> set xs \<Longrightarrow> distinct (f x)"
    and "\<And>x y. x \<in> set xs \<Longrightarrow> y \<in> set xs \<Longrightarrow> x \<noteq> y \<Longrightarrow> set (f x) \<inter> set (f y) = {}"
  shows "distinct (concat (map f xs))"
  using assms by (induction xs) fastforce+

lemma distinct_pass_sites: "distinct (pass_sites cs pass)"
  unfolding pass_sites_def
  by (intro distinct_concat_map) (auto simp: distinct_map distinct_kc_loop inj_on_def)

lemma sor_radius_formula:
  "sor_radius cs = 1 - (pi\<^sup>2 / 2) / (dmax (ltot cs X) (ltot cs Z))\<^sup>2"
  unfolding sor_radius_def by (simp add: arctan_one power_divide)

lemma pi_ge_three: "3 \<le> pi"
proof -
  have "sin (pi / 6) \<le> pi / 6" by (intro sin_x_le_x) simp
  then show ?thesis by (simp add: sin_30)
qed

lemma pi_squared_bounds: "9 \<le> pi\<^sup>2" "pi\<^sup>2 < 16"
proof -
  have "3\<^sup>2 \<le> pi\<^sup>2" using pi_ge_three by (intro power_mono) simp_all
  then show "9 \<le> pi\<^sup>2" by simp
  have "pi\<^sup>2 < 4\<^sup>2" using pi_less_4 pi_gt_zero by (intro power_strict_mono) simp_all
  then show "pi\<^sup>2 < 16" by simp
qed

lemma radius_term_bounds:
  fixes p q :: real
  assumes "9 \<le> p" "p < 16" "q = 4 \<or> 9 \<le> q"
  shows "0 < (p / 2) / q" "(p / 2) / q < 2" "(p / 2) / q \<noteq> 1"
  using assms by (auto simp: field_simps)

lemma radius_squared_bounds:
  assumes L: "dmax (ltot cs X) (ltot cs Z) = of_int m" and m: "2 \<le> m"
  shows "0 < sor_radius cs * sor_radius cs" and "sor_radius cs * sor_radius cs < 1"
proof -
  let ?L = "(of_int m :: real)"
  have q: "?L\<^sup>2 = 4 \<or> 9 \<le> ?L\<^sup>2"
  proof (cases "m = 2")
    case True
    then show ?thesis by simp
  next
    case False
    then have "3 \<le> m" using m by simp
    then have "3 \<le> ?L" by simp
    then have "3\<^sup>2 \<le> ?L\<^sup>2" by (intro power_mono) simp_all
    then show ?thesis by simp
  qed
  have r: "sor_radius cs = 1 - (pi\<^sup>2 / 2) / ?L\<^sup>2"
    by (simp add: sor_radius_formula L)
  note t = radius_term_bounds [OF pi_squared_bounds q]
  have lo: "- 1 < sor_radius cs" and hi: "sor_radius cs < 1" and ne: "sor_radius cs \<noteq> 0"
    using t unfolding r by linarith+
  show "0 < sor_radius cs * sor_radius cs" using ne by (auto simp: zero_less_mult_iff)
  have "\<bar>sor_radius cs\<bar> < 1" using lo hi by simp
  then have "\<bar>sor_radius cs\<bar> * \<bar>sor_radius cs\<bar> < 1 * 1"
    by (intro mult_strict_mono) simp_all
  then show "sor_radius cs * sor_radius cs < 1" by (simp add: abs_mult_self_eq)
qed

lemma omega_seed_bounds:
  fixes q :: real
  assumes "0 < q" "q < 1"
  shows "1 < 1 / (1 - 0.5 * q)" "1 / (1 - 0.5 * q) < 2" "1 - 0.5 * q \<noteq> 0"
  using assms by (simp_all add: field_simps)

lemma omega_next_bounds:
  fixes q om :: real
  assumes "0 < q" "q < 1" "1 \<le> om" "om < 2"
  shows "1 < 1 / (1 - 0.25 * q * om)" "1 / (1 - 0.25 * q * om) < 2" "1 - 0.25 * q * om \<noteq> 0"
proof -
  have a: "0 < q * om" using assms by simp
  have "q * om < 1 * 2" using assms by (intro mult_strict_mono) simp_all
  then have b: "q * om < 2" by simp
  show "1 < 1 / (1 - 0.25 * q * om)" "1 / (1 - 0.25 * q * om) < 2" "1 - 0.25 * q * om \<noteq> 0"
    using a b by (simp_all add: field_simps)
qed

lemma dmax_of_int: "dmax (of_int a) (of_int b) = of_int (max a b)"
  by (simp add: dmax_def max_def)

lemma radius_ok:
  assumes "integral_extents cs" and "2 \<le> ntotal cs X \<or> 2 \<le> ntotal cs Z"
  shows "0 < sor_radius cs * sor_radius cs" and "sor_radius cs * sor_radius cs < 1"
proof -
  have L: "dmax (ltot cs X) (ltot cs Z) = of_int (max (ntotal cs X) (ntotal cs Z))"
    using assms(1) by (simp add: integral_extents_def dmax_of_int)
  have m: "2 \<le> max (ntotal cs X) (ntotal cs Z)" using assms(2) by auto
  show "0 < sor_radius cs * sor_radius cs" and "sor_radius cs * sor_radius cs < 1"
    using radius_squared_bounds [OF L m] by simp_all
qed

lemma omega_poisson_bounds:
  assumes "0 < r * r" "r * r < 1" "1 \<le> om" "om < 2"
  shows "1 < omega_poisson r n pass om" "omega_poisson r n pass om < 2"
    "omega_denominator r n pass om \<noteq> 0"
  using omega_seed_bounds [OF assms(1,2)] omega_next_bounds [OF assms]
  by (simp_all add: omega_poisson_def omega_denominator_def mult.assoc)

lemma poisson_pass_Inr:
  assumes "poisson_pass cs prm halo rho_elec n pass st = Inr st'"
  shows "omega st' = omega_poisson (sor_radius cs) n pass (omega st)"
    and "1 < omega st'" and "omega st' < 2"
    and "psis st' = halo (\<lambda>p. fst (sor_pass cs prm (rho_elec p) (omega st) pass
                                   (psis st p, snd (rnorm_local st p))))"
    and "rnorm_local st' = (\<lambda>p. (fst (rnorm_local st p),
                             snd (sor_pass cs prm (rho_elec p) (omega st) pass
                                   (psis st p, snd (rnorm_local st p)))))"
    and "rnorm st' = rnorm st" and "printed st' = printed st"
  using assms
  by (auto simp: poisson_pass_def sor_pass_all_def Let_def split: if_splits)

lemma poisson_pass_Inl:
  assumes "poisson_pass cs prm halo rho_elec n pass st = Inl e"
  shows "e = Assertion ''1.0 < omega'' \<or> e = Assertion ''omega < 2.0''"
    and "\<not> (1 < omega_poisson (sor_radius cs) n pass (omega st)
           \<and> omega_poisson (sor_radius cs) n pass (omega st) < 2
           \<and> omega_denominator (sor_radius cs) n pass (omega st) \<noteq> 0)"
  using assms
  by (auto simp: poisson_pass_def sor_pass_all_def Let_def split: if_splits)

lemma poisson_pass_total:
  assumes "0 < sor_radius cs * sor_radius cs" "sor_radius cs * sor_radius cs < 1"
    and "1 \<le> omega st" "omega st < 2"
  shows "\<exists>st'. poisson_pass cs prm halo rho_elec n pass st = Inr st'"
proof (cases "poisson_pass cs prm halo rho_elec n pass st")
  case (Inl e)
  from poisson_pass_Inl(2) [OF Inl] omega_poisson_bounds [OF assms]
  show ?thesis by blast
next
  case (Inr st')
  then show ?thesis by blast
qed

lemma report_converged_Inr:
  assumes "report_converged cs prm its msg n st = Inr r"
  shows "fst r" and "psis (snd r) = psis st" and "rnorm (snd r) = rnorm st"
    and "rnorm_local (snd r) = rnorm_local st" and "omega (snd r) = omega st"
    and "nfreq prm \<noteq> 0"
  using assms by (auto simp: report_converged_def split: if_splits)


lemma report_exceeded_simps [simp]:
  "psis (report_exceeded prm n st) = psis st"
  "rnorm (report_exceeded prm n st) = rnorm st"
  "rnorm_local (report_exceeded prm n st) = rnorm_local st"
  "omega (report_exceeded prm n st) = omega st"
  by (simp_all add: report_exceeded_def)

lemma allreduce_simps [simp]:
  "psis (allreduce_rnorm procs st) = psis st"
  "rnorm (allreduce_rnorm procs st) = reduced procs st"
  "rnorm_local (allreduce_rnorm procs st) = rnorm_local st"
  "omega (allreduce_rnorm procs st) = omega st"
  "printed (allreduce_rnorm procs st) = printed st"
  by (simp_all add: allreduce_rnorm_def)

lemma poisson_iteration_Inr:
  assumes "poisson_iteration cs prm procs halo rho_elec its n st = Inr r"
  obtains st1 st2 where
    "poisson_pass cs prm halo rho_elec n 0
       (st\<lparr>rnorm_local := (\<lambda>p. (fst (rnorm_local st p), 0))\<rparr>) = Inr st1"
    "poisson_pass cs prm halo rho_elec n 1 st1 = Inr st2"
    "psis (snd r) = psis st2" "rnorm_local (snd r) = rnorm_local st2"
    "omega (snd r) = omega st2"
    "rnorm (snd r) = (if n mod 5 = 0 then reduced procs st2 else rnorm st)"
    "fst r = (n mod 5 = 0 \<and> (snd (reduced procs st2) < abstol prm
                \<or> snd (reduced procs st2) < reltol prm * fst (reduced procs st2)))"
proof -
  from assms obtain st1 where 1: "poisson_pass cs prm halo rho_elec n 0
       (st\<lparr>rnorm_local := (\<lambda>p. (fst (rnorm_local st p), 0))\<rparr>) = Inr st1"
    by (auto simp: poisson_iteration_def split: sum.splits)
  from assms 1 obtain st2 where 2: "poisson_pass cs prm halo rho_elec n 1 st1 = Inr st2"
    by (auto simp: poisson_iteration_def split: sum.splits)
  have r0: "rnorm st2 = rnorm st"
    using poisson_pass_Inr(6) [OF 1] poisson_pass_Inr(6) [OF 2] by simp
  show thesis
  proof (rule that [OF 1 2])
    show "psis (snd r) = psis st2" "rnorm_local (snd r) = rnorm_local st2"
      "omega (snd r) = omega st2"
      "rnorm (snd r) = (if n mod 5 = 0 then reduced procs st2 else rnorm st)"
      "fst r = (n mod 5 = 0 \<and> (snd (reduced procs st2) < abstol prm
                \<or> snd (reduced procs st2) < reltol prm * fst (reduced procs st2)))"
      using assms 1 2 r0
      by (auto simp: poisson_iteration_def Let_def
          dest: report_converged_Inr split: if_splits)
  qed
qed

lemma sor_loop_rule:
  assumes run: "sor_loop body niteration n st = Inr res"
    and inv: "I n st"
    and step: "\<And>n st r. I n st \<Longrightarrow> n < niteration
        \<Longrightarrow> body n st = Inr r
        \<Longrightarrow> (if fst r then Q ((snd r)\<lparr>iteration := n\<rparr>) else I (n + 1) (snd r))"
    and final: "\<And>n st. I n st \<Longrightarrow> \<not> n < niteration \<Longrightarrow> Q (st\<lparr>iteration := n\<rparr>)"
  shows "Q res"
  using run inv
proof (induction "nat (niteration - n)" arbitrary: n st rule: less_induct)
  case less
  show ?case
  proof (cases "n < niteration")
    case False
    with less.prems(1) have "res = st\<lparr>iteration := n\<rparr>"
      by (subst (asm) sor_loop.simps) simp
    with final [OF less.prems(2) False] show ?thesis by simp
  next
    case True
    from less.prems(1) True obtain r where
      r: "body n st = Inr r"
      by (subst (asm) sor_loop.simps) (auto split: sum.splits)
    show ?thesis
    proof (cases "fst r")
      case brk: True
      with less.prems(1) True r have "res = (snd r)\<lparr>iteration := n\<rparr>"
        by (subst (asm) sor_loop.simps) simp
      with step [OF less.prems(2) True r] brk show ?thesis by simp
    next
      case nobrk: False
      with less.prems(1) True r
      have run': "sor_loop body niteration (n + 1) (snd r) = Inr res"
        by (subst (asm) sor_loop.simps) simp
      from step [OF less.prems(2) True r] nobrk have inv': "I (n + 1) (snd r)" by simp
      have "nat (niteration - (n + 1)) < nat (niteration - n)" using True by simp
      from less.hyps [OF this run' inv'] show ?thesis .
    qed
  qed
qed

text \<open>The loop returns unless an iteration fails.\<close>

lemma sor_loop_total:
  assumes inv: "I n st"
    and step: "\<And>n st. I n st \<Longrightarrow> n < niteration
        \<Longrightarrow> \<exists>r. body n st = Inr r
               \<and> (\<not> fst r \<longrightarrow> I (n + 1) (snd r))"
  shows "\<exists>res. sor_loop body niteration n st = Inr res"
  using inv
proof (induction "nat (niteration - n)" arbitrary: n st rule: less_induct)
  case less
  show ?case
  proof (cases "n < niteration")
    case False
    then show ?thesis by (subst sor_loop.simps) simp
  next
    case True
    from step [OF less.prems True] obtain r where
      r: "body n st = Inr r"
      and i: "\<not> fst r \<longrightarrow> I (n + 1) (snd r)" by blast
    show ?thesis
    proof (cases "fst r")
      case brk: True
      with True r show ?thesis by (subst sor_loop.simps) simp
    next
      case nobrk: False
      have "nat (niteration - (n + 1)) < nat (niteration - n)" using True by simp
      from less.hyps [OF this] i nobrk obtain res where
        "sor_loop body niteration (n + 1) (snd r) = Inr res" by blast
      with True r nobrk show ?thesis by (subst sor_loop.simps) simp
    qed
  qed
qed

lemma vare_pass_simps [simp]:
  "omega (vare_pass cs prm halo fepsilon rho_elec pass st) = omega st"
  "rnorm (vare_pass cs prm halo fepsilon rho_elec pass st) = rnorm st"
  "printed (vare_pass cs prm halo fepsilon rho_elec pass st) = printed st"
  "psis (vare_pass cs prm halo fepsilon rho_elec pass st) =
     halo (\<lambda>p. fst (vare_sweep cs prm (fepsilon p) (rho_elec p) (omega st) pass
                      (psis st p, snd (rnorm_local st p))))"
  "rnorm_local (vare_pass cs prm halo fepsilon rho_elec pass st) =
     (\<lambda>p. (fst (rnorm_local st p),
           snd (vare_sweep cs prm (fepsilon p) (rho_elec p) (omega st) pass
                      (psis st p, snd (rnorm_local st p)))))"
  by (simp_all add: vare_pass_def)

lemma report_converged_keeps:
  assumes "report_converged cs prm its msg n st = Inr r"
  shows "fst r \<and> psis (snd r) = psis st \<and> rnorm (snd r) = rnorm st
     \<and> rnorm_local (snd r) = rnorm_local st \<and> omega (snd r) = omega st \<and> nfreq prm \<noteq> 0"
  using assms by (auto simp: report_converged_def split: if_splits)

lemma vare_iteration_Inr:
  assumes "vare_iteration cs prm procs halo fepsilon rho_elec its n st = Inr r"
  shows "psis (snd r) = psis (vare_two_passes cs prm halo fepsilon rho_elec st)"
    and "rnorm_local (snd r) = rnorm_local (vare_two_passes cs prm halo fepsilon rho_elec st)"
    and "omega (snd r) = 1 / (1 - 0.25 * sor_radius cs * sor_radius cs * omega st)"
    and "rnorm (snd r) = reduced procs (snd r)"
    and "fst r = (snd (rnorm (snd r)) < abstol prm
                  \<or> snd (rnorm (snd r)) < reltol prm * fst (rnorm (snd r)))"
  using assms
  by (auto simp: vare_iteration_def vare_two_passes_def Let_def reduced_def
      dest!: report_converged_keeps split: if_splits)


lemma poisson_iteration_check:
  assumes "poisson_iteration cs prm procs halo rho_elec its n st = Inr r"
  shows "rnorm (snd r) = (if n mod 5 = 0 then reduced procs (snd r) else rnorm st)"
    and "fst r = (n mod 5 = 0 \<and> (snd (rnorm (snd r)) < abstol prm
                   \<or> snd (rnorm (snd r)) < reltol prm * fst (rnorm (snd r))))"
proof -
  from assms obtain st1 st2 where
    a: "rnorm_local (snd r) = rnorm_local st2"
    and b: "rnorm (snd r) = (if n mod 5 = 0 then reduced procs st2 else rnorm st)"
    and c: "fst r = (n mod 5 = 0 \<and> (snd (reduced procs st2) < abstol prm
                \<or> snd (reduced procs st2) < reltol prm * fst (reduced procs st2)))"
    by (rule poisson_iteration_Inr)
  have e: "reduced procs (snd r) = reduced procs st2" by (simp add: reduced_def a)
  show "rnorm (snd r) = (if n mod 5 = 0 then reduced procs (snd r) else rnorm st)"
    using b e by simp
  show "fst r = (n mod 5 = 0 \<and> (snd (rnorm (snd r)) < abstol prm
                   \<or> snd (rnorm (snd r)) < reltol prm * fst (rnorm (snd r))))"
    using b c e by auto
qed

lemma reduced_iteration_update [simp]: "reduced procs (st\<lparr>iteration := n\<rparr>) = reduced procs st"
  by (simp add: reduced_def)

lemma poisson_converged:
  assumes "psi_sor_poisson cs prm procs halo rho_elec psi0 its = Inr res"
    and "iteration res < maxits prm"
  shows "iteration res mod 5 = 0 \<and> rnorm res = reduced procs res
     \<and> (snd (rnorm res) < abstol prm \<or> snd (rnorm res) < reltol prm * fst (rnorm res))"
proof -
  let ?Q = "\<lambda>res. iteration res < maxits prm \<longrightarrow>
     iteration res mod 5 = 0 \<and> rnorm res = reduced procs res
     \<and> (snd (rnorm res) < abstol prm \<or> snd (rnorm res) < reltol prm * fst (rnorm res))"
  from assms(1) have run: "sor_loop (poisson_iteration cs prm procs halo rho_elec its)
      (maxits prm) 0 (initial_state_poisson cs prm rho_elec psi0) = Inr res"
    by (simp add: psi_sor_poisson_def split: if_splits)
  have "?Q res"
  proof (rule sor_loop_rule [OF run, where I = "\<lambda>n st. True" and Q = ?Q])
    fix n st r
    assume "poisson_iteration cs prm procs halo rho_elec its n st = Inr r"
    from poisson_iteration_check [OF this]
    show "if fst r then ?Q ((snd r)\<lparr>iteration := n\<rparr>) else True"
      by (auto split: if_splits)
  qed simp_all
  with assms(2) show ?thesis by blast
qed

lemma vare_converged:
  assumes "psi_sor_vare_poisson cs prm procs halo fepsilon rho_elec psi0 its = Inr res"
    and "iteration res < maxits prm"
  shows "rnorm res = reduced procs res
     \<and> (snd (rnorm res) < abstol prm \<or> snd (rnorm res) < reltol prm * fst (rnorm res))"
proof -
  let ?Q = "\<lambda>res. iteration res < maxits prm \<longrightarrow> rnorm res = reduced procs res
     \<and> (snd (rnorm res) < abstol prm \<or> snd (rnorm res) < reltol prm * fst (rnorm res))"
  from assms(1) have run: "sor_loop (vare_iteration cs prm procs halo fepsilon rho_elec its)
      (maxits prm) 0 (initial_state_vare cs prm fepsilon rho_elec psi0) = Inr res"
    by (simp add: psi_sor_vare_poisson_def split: if_splits)
  have "?Q res"
  proof (rule sor_loop_rule [OF run, where I = "\<lambda>n st. True" and Q = ?Q])
    fix n st r
    assume "vare_iteration cs prm procs halo fepsilon rho_elec its n st = Inr r"
    from vare_iteration_Inr(4,5) [OF this]
    show "if fst r then ?Q ((snd r)\<lparr>iteration := n\<rparr>) else True"
      by (auto split: if_splits)
  qed simp_all
  with assms(2) show ?thesis by blast
qed

lemma sor_loop_break:
  assumes "body n st = Inr r" "fst r" "n < niteration"
  shows "sor_loop body niteration n st = Inr ((snd r)\<lparr>iteration := n\<rparr>)"
  using assms by (subst sor_loop.simps) simp

lemma poisson_iteration_fst_local:
  assumes "poisson_iteration cs prm procs halo rho_elec its n st = Inr r"
  shows "fst (rnorm_local (snd r) p) = fst (rnorm_local st p)"
proof -
  from assms obtain st1 st2 where
    1: "poisson_pass cs prm halo rho_elec n 0
       (st\<lparr>rnorm_local := (\<lambda>p. (fst (rnorm_local st p), 0))\<rparr>) = Inr st1"
    and 2: "poisson_pass cs prm halo rho_elec n 1 st1 = Inr st2"
    and a: "rnorm_local (snd r) = rnorm_local st2"
    by (rule poisson_iteration_Inr)
  show ?thesis
    by (simp add: a poisson_pass_Inr(5) [OF 2] poisson_pass_Inr(5) [OF 1])
qed

lemma poisson_iteration_omega:
  assumes "poisson_iteration cs prm procs halo rho_elec its n st = Inr r"
  shows "1 < omega (snd r)" and "omega (snd r) < 2"
proof -
  from assms obtain st1 st2 where
    2: "poisson_pass cs prm halo rho_elec n 1 st1 = Inr st2"
    and a: "omega (snd r) = omega st2"
    by (rule poisson_iteration_Inr)
  show "1 < omega (snd r)" and "omega (snd r) < 2"
    using poisson_pass_Inr(2,3) [OF 2] a by simp_all
qed

lemma fst_reduced: "fst (reduced procs st) = (\<Sum>p\<leftarrow>procs. fst (rnorm_local st p))"
  by (simp add: reduced_def)

lemma poisson_initial_norm_reduced:
  assumes "psi_sor_poisson cs prm procs halo rho_elec psi0 its = Inr res"
    and "0 < maxits prm"
  shows "fst (rnorm res) = (\<Sum>p\<leftarrow>procs. rnorm_local0_poisson cs prm (rho_elec p) (psi0 p))"
proof -
  let ?R = "\<lambda>p. rnorm_local0_poisson cs prm (rho_elec p) (psi0 p)"
  let ?I = "\<lambda>(n::int) st. 0 \<le> n \<and> (\<forall>p. fst (rnorm_local st p) = ?R p)
     \<and> (0 < n \<longrightarrow> fst (rnorm st) = (\<Sum>p\<leftarrow>procs. ?R p))"
  let ?Q = "\<lambda>res. 0 < maxits prm \<longrightarrow> fst (rnorm res) = (\<Sum>p\<leftarrow>procs. ?R p)"
  from assms(1) have run: "sor_loop (poisson_iteration cs prm procs halo rho_elec its)
      (maxits prm) 0 (initial_state_poisson cs prm rho_elec psi0) = Inr res"
    by (simp add: psi_sor_poisson_def split: if_splits)
  have "?Q res"
  proof (rule sor_loop_rule [OF run, where I = ?I and Q = ?Q])
    show "?I 0 (initial_state_poisson cs prm rho_elec psi0)"
      by (simp add: initial_state_poisson_def)
  next
    fix n st r
    assume I: "?I n st" and it: "poisson_iteration cs prm procs halo rho_elec its n st = Inr r"
    have loc: "\<forall>p. fst (rnorm_local (snd r) p) = ?R p"
      using poisson_iteration_fst_local [OF it] I by simp
    have "fst (rnorm (snd r)) = (\<Sum>p\<leftarrow>procs. ?R p)"
    proof (cases "n mod 5 = 0")
      case True
      then show ?thesis
        using poisson_iteration_check(1) [OF it] loc by (simp add: fst_reduced)
    next
      case False
      then have "0 < n" using I by (cases "n = 0") auto
      then show ?thesis using poisson_iteration_check(1) [OF it] False I by simp
    qed
    with loc I show "if fst r then ?Q ((snd r)\<lparr>iteration := n\<rparr>) else ?I (n + 1) (snd r)"
      by simp
  next
    fix n st
    assume "?I n st" and "\<not> n < maxits prm"
    then show "?Q (st\<lparr>iteration := n\<rparr>)" by auto
  qed
  with assms(2) show ?thesis by blast
qed

text \<open>Running out of iterations\<close>

lemma poisson_iteration_printed:
  assumes "poisson_iteration cs prm procs halo rho_elec its n st = Inr r" and "\<not> fst r"
  shows "printed (snd r) =
     (if n = maxits prm - 1
      then printed st @ [Exceeded (n + 1) (fst (rnorm (snd r))) (snd (rnorm (snd r)))]
      else printed st)"
proof -
  from assms(1) obtain st1 where 1: "poisson_pass cs prm halo rho_elec n 0
       (st\<lparr>rnorm_local := (\<lambda>p. (fst (rnorm_local st p), 0))\<rparr>) = Inr st1"
    by (auto simp: poisson_iteration_def split: sum.splits)
  from assms(1) 1 obtain st2 where 2: "poisson_pass cs prm halo rho_elec n 1 st1 = Inr st2"
    by (auto simp: poisson_iteration_def split: sum.splits)
  have p: "printed st2 = printed st"
    using poisson_pass_Inr(7) [OF 1] poisson_pass_Inr(7) [OF 2] by simp
  show ?thesis
    using assms 1 2 p
    by (auto simp: poisson_iteration_def Let_def report_exceeded_def
        dest!: report_converged_keeps split: if_splits)
qed

lemma poisson_exceeded_report:
  assumes "psi_sor_poisson cs prm procs halo rho_elec psi0 its = Inr res"
    and "\<not> iteration res < maxits prm" and "1 \<le> maxits prm"
  shows "iteration res = maxits prm \<and> printed res \<noteq> []
     \<and> last (printed res) = Exceeded (maxits prm) (fst (rnorm res)) (snd (rnorm res))"
proof -
  let ?E = "\<lambda>st. printed st \<noteq> []
     \<and> last (printed st) = Exceeded (maxits prm) (fst (rnorm st)) (snd (rnorm st))"
  let ?I = "\<lambda>(n::int) st. 0 \<le> n \<and> n \<le> maxits prm \<and> (n = maxits prm \<longrightarrow> ?E st)"
  let ?Q = "\<lambda>res. \<not> iteration res < maxits prm \<longrightarrow> iteration res = maxits prm \<and> ?E res"
  from assms(1) have run: "sor_loop (poisson_iteration cs prm procs halo rho_elec its)
      (maxits prm) 0 (initial_state_poisson cs prm rho_elec psi0) = Inr res"
    by (simp add: psi_sor_poisson_def split: if_splits)
  have "?Q res"
  proof (rule sor_loop_rule [OF run, where I = ?I and Q = ?Q])
    show "?I 0 (initial_state_poisson cs prm rho_elec psi0)"
      using assms(3) by simp
  next
    fix n st r
    assume I: "?I n st" and n: "n < maxits prm"
      and it: "poisson_iteration cs prm procs halo rho_elec its n st = Inr r"
    show "if fst r then ?Q ((snd r)\<lparr>iteration := n\<rparr>) else ?I (n + 1) (snd r)"
    proof (cases "fst r")
      case True
      then show ?thesis using n by simp
    next
      case False
      from poisson_iteration_printed [OF it False] I n False
      show ?thesis by auto
    qed
  next
    fix n st
    assume "?I n st" and "\<not> n < maxits prm"
    then show "?Q (st\<lparr>iteration := n\<rparr>)" by auto
  qed
  with assms(2) show ?thesis by blast
qed

lemma poisson_iteration_total:
  assumes "0 < sor_radius cs * sor_radius cs" "sor_radius cs * sor_radius cs < 1"
    and "1 \<le> omega st" "omega st < 2" and "nfreq prm \<noteq> 0"
  shows "\<exists>r. poisson_iteration cs prm procs halo rho_elec its n st = Inr r"
proof -
  let ?st0 = "st\<lparr>rnorm_local := (\<lambda>p. (fst (rnorm_local st p), 0))\<rparr>"
  have "1 \<le> omega ?st0" "omega ?st0 < 2" using assms by simp_all
  from poisson_pass_total [OF assms(1,2) this] obtain st1 where
    1: "poisson_pass cs prm halo rho_elec n 0 ?st0 = Inr st1" by blast
  have "1 \<le> omega st1" "omega st1 < 2" using poisson_pass_Inr(2,3) [OF 1] by simp_all
  from poisson_pass_total [OF assms(1,2) this] obtain st2 where
    2: "poisson_pass cs prm halo rho_elec n 1 st1 = Inr st2" by blast
  show ?thesis
    using 1 2 assms(5)
    by (auto simp: poisson_iteration_def Let_def report_converged_def)
qed

lemma poisson_returns:
  assumes "nhalo cs \<ge> 1" "even_extents cs" "integral_extents cs"
    and "2 \<le> ntotal cs X \<or> 2 \<le> ntotal cs Z" and "nfreq prm \<noteq> 0"
  shows "\<exists>res. psi_sor_poisson cs prm (procs :: 'p list) halo rho_elec psi0 its = Inr res"
proof -
  note r = radius_ok [OF assms(3,4)]
  have "\<exists>res. sor_loop (poisson_iteration cs prm procs halo rho_elec its)
      (maxits prm) 0 (initial_state_poisson cs prm rho_elec psi0) = Inr res"
  proof (rule sor_loop_total [where I = "\<lambda>n (st :: 'p sor_state). 1 \<le> omega st \<and> omega st < 2"])
    show "1 \<le> omega (initial_state_poisson cs prm rho_elec psi0)
       \<and> omega (initial_state_poisson cs prm rho_elec psi0) < 2"
      by (simp add: initial_state_poisson_def)
  next
    fix n and st :: "'p sor_state"
    assume "1 \<le> omega st \<and> omega st < 2"
    then obtain r where
      it: "poisson_iteration cs prm procs halo rho_elec its n st = Inr r"
      using poisson_iteration_total [OF r _ _ assms(5)] by blast
    from poisson_iteration_omega [OF it] it
    show "\<exists>r. poisson_iteration cs prm procs halo rho_elec its n st = Inr r
       \<and> (\<not> fst r \<longrightarrow> 1 \<le> omega (snd r) \<and> omega (snd r) < 2)"
      by auto
  qed
  then show ?thesis
    using assms(1,2) by (simp add: psi_sor_poisson_def even_extents_def)
qed

lemma sor_loop_last:
  assumes "body (niteration - 1) st = Inr r" "\<not> fst r"
  shows "sor_loop body niteration (niteration - 1) st = Inr ((snd r)\<lparr>iteration := niteration\<rparr>)"
proof -
  have "sor_loop body niteration (niteration - 1) st = sor_loop body niteration niteration (snd r)"
    using assms by (subst sor_loop.simps) simp
  also have "\<dots> = Inr ((snd r)\<lparr>iteration := niteration\<rparr>)"
    by (subst sor_loop.simps) simp
  finally show ?thesis .
qed

lemma zero_field_eq: "zero_field p = (\<lambda>i. 0)" "zero_field = (\<lambda>p i. 0)"
  by (simp_all add: zero_field_def fun_eq_iff)

lemma foldl_fixed: "(\<And>x. f a x = a) \<Longrightarrow> foldl f a xs = a"
  by (induction xs) simp_all

lemma prm_small_simps [simp]:
  "epsilon prm_small = 1" "reltol prm_small = 1 / 10000000"
  "abstol prm_small = 1 / 1000000000" "maxits prm_small = 10" "beta prm_small = 1"
  "unit_charge prm_small = 1" "nfreq prm_small = 1"
  by (simp_all add: prm_small_def)

lemma cs_small_simps [simp]:
  "ntotal cs_small a = 2" "ltot cs_small a = 2" "nlocal cs_small a = 2" "nhalo cs_small = 1"
  "cartsz cs_small a = 1" "periodic cs_small a = False"
  by (simp_all add: cs_small_def)

lemma residual_poisson_at_rest: "residual_poisson cs prm (\<lambda>i. 0) (\<lambda>i. 0) index = 0"
  by (simp add: residual_poisson_def dpsi_stencil_def split: prod.splits)

lemma sor_site_at_rest: "sor_site cs prm (\<lambda>i. 0) om (\<lambda>i. 0, rn) index = (\<lambda>i. 0, rn)"
  by (simp add: sor_site_def residual_poisson_at_rest fun_eq_iff)

lemma sor_pass_at_rest: "sor_pass cs prm (\<lambda>i. 0) om pass (\<lambda>i. 0, rn) = (\<lambda>i. 0, rn)"
  unfolding sor_pass_def by (rule foldl_fixed) (simp add: sor_site_at_rest)

lemma rnorm_local0_poisson_at_rest: "rnorm_local0_poisson cs prm (\<lambda>i. 0) (\<lambda>i. 0) = 0"
  unfolding rnorm_local0_poisson_def
  by (rule foldl_fixed) (simp add: residual_poisson_at_rest)

lemma depsi_vare_at_rest: "depsi_vare cs fepsilon (\<lambda>i. 0) index = 0"
  by (simp add: depsi_vare_def Let_def split: prod.splits)

lemma vare_site_at_rest:
  "vare_site cs prm fepsilon (\<lambda>i. 0) om (\<lambda>i. 0, rn) index = (\<lambda>i. 0, rn)"
  by (simp add: vare_site_def residual_vare_def depsi_vare_at_rest fun_eq_iff)

lemma vare_sweep_at_rest:
  "vare_sweep cs prm fepsilon (\<lambda>i. 0) om pass (\<lambda>i. 0, rn) = (\<lambda>i. 0, rn)"
  unfolding vare_sweep_def by (rule foldl_fixed) (simp add: vare_site_at_rest)

lemma rnorm_local0_vare_at_rest: "rnorm_local0_vare cs prm fepsilon (\<lambda>i. 0) (\<lambda>i. 0) = 0"
  unfolding rnorm_local0_vare_def
  by (rule foldl_fixed) (simp add: residual_vare_def depsi_vare_at_rest)

lemma radius_small:
  "0 < sor_radius cs_small * sor_radius cs_small" "sor_radius cs_small * sor_radius cs_small < 1"
  by (rule radius_ok; simp add: integral_extents_def)+

lemma omega_small:
  "1 < omega_poisson (sor_radius cs_small) 0 0 1"
  "omega_poisson (sor_radius cs_small) 0 0 1 < 2"
  "omega_denominator (sor_radius cs_small) 0 0 1 \<noteq> 0"
  "1 < omega_small_poisson" "omega_small_poisson < 2"
  "omega_denominator (sor_radius cs_small) 0 1 (omega_poisson (sor_radius cs_small) 0 0 1) \<noteq> 0"
proof -
  show a: "1 < omega_poisson (sor_radius cs_small) 0 0 1"
    and b: "omega_poisson (sor_radius cs_small) 0 0 1 < 2"
    and "omega_denominator (sor_radius cs_small) 0 0 1 \<noteq> 0"
    using omega_poisson_bounds [OF radius_small, of 1 0 0] by simp_all
  from a have c: "1 \<le> omega_poisson (sor_radius cs_small) 0 0 1" by simp
  show "1 < omega_small_poisson" "omega_small_poisson < 2"
    "omega_denominator (sor_radius cs_small) 0 1 (omega_poisson (sor_radius cs_small) 0 0 1) \<noteq> 0"
    using omega_poisson_bounds [OF radius_small c b, of 0 1]
    by (simp_all add: omega_small_poisson_def)
qed

lemma initial_small_poisson:
  "initial_state_poisson cs_small prm_small zero_field zero_field =
     \<lparr>psis = zero_field, rnorm_local = (\<lambda>p. (0, 0)), rnorm = (0, 0), omega = 1,
      iteration = 0, printed = []\<rparr>"
  by (simp add: initial_state_poisson_def zero_field_eq rnorm_local0_poisson_at_rest)

lemma poisson_pass_small_0:
  "poisson_pass cs_small prm_small no_exchange zero_field 0 0
     \<lparr>psis = zero_field, rnorm_local = (\<lambda>p. (0, 0)), rnorm = (0, 0), omega = 1,
      iteration = 0, printed = []\<rparr> =
   Inr \<lparr>psis = zero_field, rnorm_local = (\<lambda>p. (0, 0)), rnorm = (0, 0),
        omega = omega_poisson (sor_radius cs_small) 0 0 1, iteration = 0, printed = []\<rparr>"
  using omega_small(1,2,3)
  by (simp add: poisson_pass_def sor_pass_all_def Let_def zero_field_eq sor_pass_at_rest
      no_exchange_def)

lemma poisson_pass_small_1:
  "poisson_pass cs_small prm_small no_exchange zero_field 0 1
     \<lparr>psis = zero_field, rnorm_local = (\<lambda>p. (0, 0)), rnorm = (0, 0),
        omega = omega_poisson (sor_radius cs_small) 0 0 1, iteration = 0, printed = []\<rparr> =
   Inr \<lparr>psis = zero_field, rnorm_local = (\<lambda>p. (0, 0)), rnorm = (0, 0),
        omega = omega_small_poisson, iteration = 0, printed = []\<rparr>"
  using omega_small(4,5,6)
  by (simp add: poisson_pass_def sor_pass_all_def Let_def zero_field_eq sor_pass_at_rest
      no_exchange_def omega_small_poisson_def)

lemma poisson_iteration_small:
  "poisson_iteration cs_small prm_small [()] no_exchange zero_field 0 0
     (initial_state_poisson cs_small prm_small zero_field zero_field) =
   Inr (True, solved_small omega_small_poisson (ConvergedAbsolute 0 0))"
  by (simp add: poisson_iteration_def initial_small_poisson poisson_pass_small_0
      poisson_pass_small_1 allreduce_rnorm_def reduced_def report_converged_def
      solved_small_def)

lemma psi_sor_poisson_small:
  "psi_sor_poisson cs_small prm_small [()] no_exchange zero_field zero_field 0 =
     Inr (solved_small omega_small_poisson (ConvergedAbsolute 0 0))"
proof -
  have "sor_loop (poisson_iteration cs_small prm_small [()] no_exchange zero_field 0)
     (maxits prm_small) 0 (initial_state_poisson cs_small prm_small zero_field zero_field) =
     Inr ((solved_small omega_small_poisson (ConvergedAbsolute 0 0))\<lparr>iteration := 0\<rparr>)"
    using sor_loop_break [of "poisson_iteration cs_small prm_small [()] no_exchange zero_field 0"
        0 "initial_state_poisson cs_small prm_small zero_field zero_field" _ "maxits prm_small",
        OF poisson_iteration_small]
    by simp
  then show ?thesis
    by (simp add: psi_sor_poisson_def solved_small_def)
qed




lemma poisson_iteration_local:
  assumes "poisson_iteration cs prm procs halo rho_elec its n st = Inr r"
  shows "\<exists>st1. poisson_pass cs prm halo rho_elec n 0
            (st\<lparr>rnorm_local := (\<lambda>p. (fst (rnorm_local st p), 0))\<rparr>) = Inr st1
     \<and> rnorm_local (snd r) =
         (\<lambda>p. (fst (rnorm_local st p),
               snd (sor_pass cs prm (rho_elec p) (omega st1) 1
                     (psis st1 p,
                      snd (sor_pass cs prm (rho_elec p) (omega st) 0 (psis st p, 0))))))"
proof -
  from assms obtain st1 st2 where
    1: "poisson_pass cs prm halo rho_elec n 0
       (st\<lparr>rnorm_local := (\<lambda>p. (fst (rnorm_local st p), 0))\<rparr>) = Inr st1"
    and 2: "poisson_pass cs prm halo rho_elec n 1 st1 = Inr st2"
    and a: "rnorm_local (snd r) = rnorm_local st2"
    by (rule poisson_iteration_Inr)
  have "rnorm_local st2 =
         (\<lambda>p. (fst (rnorm_local st p),
               snd (sor_pass cs prm (rho_elec p) (omega st1) 1
                     (psis st1 p,
                      snd (sor_pass cs prm (rho_elec p) (omega st) 0 (psis st p, 0))))))"
    by (simp add: poisson_pass_Inr(5) [OF 2] poisson_pass_Inr(5) [OF 1])
  with 1 a show ?thesis by simp
qed

text \<open>
  C6. Before iterating, \<open>psi_sor_poisson\<close> accumulates in \<open>rnorm_local[0]\<close> the L1 sum,
  over every owned interior site \<open>1 \<le> ic \<le> nlocal[X]\<close>, \<open>1 \<le> jc \<le> nlocal[Y]\<close>,
  \<open>1 \<le> kc \<le> nlocal[Z]\<close>, of the absolute value of \<open>epsilon\<close> times the 6-point
  Laplacian of \<open>psi\<close> plus \<open>eunit*beta*rho_elec\<close>; the first element of the reduced pair
  \<open>rnorm\<close> a solve returns is the sum of these per-process sums over the processes.
\<close>

theorem initial_residual_norm:
  "(cs_strides cs = (xs, ys, zs) \<longrightarrow>
      rnorm_local0_poisson cs prm rho psi =
        (\<Sum>ic = 1..nlocal cs X. \<Sum>jc = 1..nlocal cs Y. \<Sum>kc = 1..nlocal cs Z.
           \<bar>epsilon prm *
              (psi (cs_index cs ic jc kc + xs) + psi (cs_index cs ic jc kc - xs)
               + psi (cs_index cs ic jc kc + ys) + psi (cs_index cs ic jc kc - ys)
               + psi (cs_index cs ic jc kc + zs) + psi (cs_index cs ic jc kc - zs)
               - 6 * psi (cs_index cs ic jc kc))
            + unit_charge prm * beta prm * rho (cs_index cs ic jc kc)\<bar>))
   \<and> (\<forall>p. fst (rnorm_local (initial_state_poisson cs prm rho_elec psi0) p) =
          rnorm_local0_poisson cs prm (rho_elec p) (psi0 p))
   \<and> (psi_sor_poisson cs prm procs halo rho_elec psi0 its = Inr res \<and> 0 < maxits prm \<longrightarrow>
        fst (rnorm res) = (\<Sum>p\<leftarrow>procs. rnorm_local0_poisson cs prm (rho_elec p) (psi0 p)))"
proof (intro conjI impI allI)
  assume "cs_strides cs = (xs, ys, zs)"
  then show "rnorm_local0_poisson cs prm rho psi =
        (\<Sum>ic = 1..nlocal cs X. \<Sum>jc = 1..nlocal cs Y. \<Sum>kc = 1..nlocal cs Z.
           \<bar>epsilon prm *
              (psi (cs_index cs ic jc kc + xs) + psi (cs_index cs ic jc kc - xs)
               + psi (cs_index cs ic jc kc + ys) + psi (cs_index cs ic jc kc - ys)
               + psi (cs_index cs ic jc kc + zs) + psi (cs_index cs ic jc kc - zs)
               - 6 * psi (cs_index cs ic jc kc))
            + unit_charge prm * beta prm * rho (cs_index cs ic jc kc)\<bar>)"
    by (simp add: rnorm_local0_poisson_sum dpsi_stencil_def addr_rank0_def)
next
  fix p
  show "fst (rnorm_local (initial_state_poisson cs prm rho_elec psi0) p) =
          rnorm_local0_poisson cs prm (rho_elec p) (psi0 p)"
    by (simp add: initial_state_poisson_def)
next
  assume "psi_sor_poisson cs prm procs halo rho_elec psi0 its = Inr res \<and> 0 < maxits prm"
  then show "fst (rnorm res) = (\<Sum>p\<leftarrow>procs. rnorm_local0_poisson cs prm (rho_elec p) (psi0 p))"
    using poisson_initial_norm_reduced by blast
qed

theorem initial_residual_norm_witness:
  "cs_strides cs_small = (16, 4, 1)
   \<and> psi_sor_poisson cs_small prm_small [()] no_exchange zero_field zero_field 0 =
       Inr (solved_small omega_small_poisson (ConvergedAbsolute 0 0))
   \<and> 0 < maxits prm_small
   \<and> rnorm_local0_poisson cs_small prm_small (one_field ()) (zero_field ()) = 8
   \<and> fst (rnorm (solved_small omega_small_poisson (ConvergedAbsolute 0 0))) =
       (\<Sum>p\<leftarrow>[()]. rnorm_local0_poisson cs_small prm_small (zero_field p) (zero_field p))"
proof -
  have s: "cs_strides cs_small = (16, 4, 1)"
    by (simp add: cs_strides_def nall_def)
  have m: "0 < maxits prm_small" by simp
  note t = initial_residual_norm
    [of cs_small 16 4 1 prm_small "one_field ()" "zero_field ()" zero_field zero_field
      "[()]" no_exchange 0 "solved_small omega_small_poisson (ConvergedAbsolute 0 0)"]
  from t s have "rnorm_local0_poisson cs_small prm_small (one_field ()) (zero_field ()) = 8"
    by (simp add: zero_field_def one_field_def)
  moreover from t psi_sor_poisson_small m
  have "fst (rnorm (solved_small omega_small_poisson (ConvergedAbsolute 0 0))) =
       (\<Sum>p\<leftarrow>[()]. rnorm_local0_poisson cs_small prm_small (zero_field p) (zero_field p))"
    by blast
  ultimately show ?thesis using s m psi_sor_poisson_small by blast
qed

lemma small_multiple:
  fixes n k d :: int
  assumes "n * k = d" "\<bar>d\<bar> < n"
  shows "k = 0"
proof (rule ccontr)
  assume "k \<noteq> 0"
  then have "1 \<le> \<bar>k\<bar>" by simp
  have n: "0 < n" using assms(2) by simp
  have "n * 1 \<le> n * \<bar>k\<bar>" using \<open>1 \<le> \<bar>k\<bar>\<close> n by (intro mult_left_mono) simp_all
  also have "\<dots> = \<bar>n * k\<bar>" using n by (simp add: abs_mult)
  finally show False using assms by simp
qed

lemma cs_index_inj:
  assumes s: "(i, j, k) \<in> storage cs" and t: "(i', j', k') \<in> storage cs"
    and eq: "cs_index cs i j k = cs_index cs i' j' k'"
  shows "i = i' \<and> j = j' \<and> k = k'"
proof -
  let ?h = "nhalo cs"
  let ?NY = "nall cs Y" and ?NZ = "nall cs Z"
  from eq have e: "?NY * ?NZ * (i - i') + ?NZ * (j - j') + (k - k') = 0"
    by (simp add: cs_index_def cs_strides_def algebra_simps)
  have kb: "\<bar>k' - k\<bar> < ?NZ" using s t by (auto simp: storage_def nall_def)
  have jb: "\<bar>j' - j\<bar> < ?NY" using s t by (auto simp: storage_def nall_def)
  from e have m: "?NZ * (?NY * (i - i') + (j - j')) = k' - k" by (simp add: algebra_simps)
  from small_multiple [OF this kb] have 1: "?NY * (i - i') + (j - j') = 0" .
  from m have keq: "k = k'" unfolding 1 by simp
  from 1 have "?NY * (i - i') = j' - j" by simp
  from small_multiple [OF this jb] have ieq: "i = i'" by simp
  with 1 have "j = j'" by simp
  with ieq keq show ?thesis by simp
qed

lemma site_index_inj:
  assumes "s \<in> storage cs" "t \<in> storage cs" "site_index cs s = site_index cs t"
  shows "s = t"
  using assms cs_index_inj [of "fst s" "fst (snd s)" "snd (snd s)" cs
      "fst t" "fst (snd t)" "snd (snd t)"]
  by (cases s; cases t) (simp add: site_index_def)

lemma cs_index_shift:
  assumes "cs_strides cs = (xs, ys, zs)"
  shows "cs_index cs (ic + 1) jc kc = cs_index cs ic jc kc + xs"
    and "cs_index cs (ic - 1) jc kc = cs_index cs ic jc kc - xs"
    and "cs_index cs ic (jc + 1) kc = cs_index cs ic jc kc + ys"
    and "cs_index cs ic (jc - 1) kc = cs_index cs ic jc kc - ys"
    and "cs_index cs ic jc (kc + 1) = cs_index cs ic jc kc + zs"
    and "cs_index cs ic jc (kc - 1) = cs_index cs ic jc kc - zs"
  using assms by (auto simp: cs_index_def cs_strides_def algebra_simps)

lemma pass_sites_interior_colour:
  assumes "pass = 0 \<or> pass = 1"
  shows "set (pass_sites cs pass) = {s \<in> interior cs. colour s = (1 + pass) mod 2}"
  unfolding pass_sites_colour [OF assms] interior_def colour_def by auto

lemma abs_sum_one_odd:
  fixes a b c :: int
  assumes "\<bar>a\<bar> + \<bar>b\<bar> + \<bar>c\<bar> = 1"
  shows "(a + b + c) mod 2 = 1"
  using assms by presburger

lemma parity_differs:
  fixes u v :: int
  assumes "(u - v) mod 2 = 1"
  shows "u mod 2 \<noteq> v mod 2"
  using assms by presburger

lemma stencil_neighbours_colour:
  assumes "stencil_neighbours s t"
  shows "colour s \<noteq> colour t"
proof -
  obtain i j k i' j' k' where s: "s = (i, j, k)" "t = (i', j', k')" by (cases s; cases t)
  from assms have "\<bar>i - i'\<bar> + \<bar>j - j'\<bar> + \<bar>k - k'\<bar> = 1"
    by (simp add: s stencil_neighbours_def)
  from abs_sum_one_odd [OF this] have "((i + j + k) - (i' + j' + k')) mod 2 = 1"
    by (simp add: algebra_simps)
  from parity_differs [OF this] show ?thesis by (simp add: s colour_def)
qed

lemma pass_sites_not_neighbours:
  assumes "pass = 0 \<or> pass = 1" "s \<in> set (pass_sites cs pass)" "t \<in> set (pass_sites cs pass)"
  shows "\<not> stencil_neighbours s t"
  using assms stencil_neighbours_colour [of s t]
  by (auto simp: pass_sites_interior_colour)

lemma sor_pass_frame:
  assumes "index \<notin> site_index cs ` set (pass_sites cs pass)"
  shows "fst (sor_pass cs prm rho_elec om pass st) index = fst st index"
proof -
  have "index \<notin> site_index cs ` set xs \<Longrightarrow>
      fst (foldl (\<lambda>st s. sor_site cs prm rho_elec om st (site_index cs s)) st xs) index
        = fst st index" for xs st
  proof (induction xs arbitrary: st)
    case Nil
    then show ?case by simp
  next
    case (Cons x xs)
    have "fst (sor_site cs prm rho_elec om st (site_index cs x)) index = fst st index"
      using Cons.prems by (cases st) (simp add: sor_site_def addr_rank0_def Let_def)
    with Cons show ?case by simp
  qed
  with assms show ?thesis by (simp add: sor_pass_def)
qed

lemma vare_sweep_frame:
  assumes "index \<notin> site_index cs ` set (pass_sites cs pass)"
  shows "fst (vare_sweep cs prm fepsilon rho_elec om pass st) index = fst st index"
proof -
  have "index \<notin> site_index cs ` set xs \<Longrightarrow>
      fst (foldl (\<lambda>st s. vare_site cs prm fepsilon rho_elec om st (site_index cs s)) st xs) index
        = fst st index" for xs st
  proof (induction xs arbitrary: st)
    case Nil
    then show ?case by simp
  next
    case (Cons x xs)
    have "fst (vare_site cs prm fepsilon rho_elec om st (site_index cs x)) index = fst st index"
      using Cons.prems by (cases st) (simp add: vare_site_def addr_rank0_def Let_def)
    with Cons show ?case by simp
  qed
  with assms show ?thesis by (simp add: vare_sweep_def)
qed

lemma colour_global_site:
  assumes "even_extents cs"
  shows "colour (global_site cs p s) = colour s"
proof -
  obtain i j k where s: "s = (i, j, k)" by (cases s)
  have ev: "\<exists>m. noffset cs p a = 2 * m" for a
  proof -
    have "nlocal cs a mod 2 = 0" using assms by (cases a) (simp_all add: even_extents_def)
    then obtain q where "nlocal cs a = 2 * q" by (auto elim: evenE simp: even_iff_mod_2_eq_zero)
    then have "noffset cs p a = 2 * (component a p * q)" by (simp add: noffset_def)
    then show ?thesis by blast
  qed
  from ev [of X] ev [of Y] ev [of Z] obtain mx my mz where
    "noffset cs p X = 2 * mx" "noffset cs p Y = 2 * my" "noffset cs p Z = 2 * mz" by blast
  then have "colour (global_site cs p s) = (2 * (mx + my + mz) + (i + j + k)) mod 2"
    unfolding s global_site_def colour_def by (simp add: algebra_simps)
  also have "\<dots> = (i + j + k) mod 2" by presburger
  finally show ?thesis by (simp add: s colour_def)
qed

lemma axis_adjacent_parity:
  assumes "axis_adjacent cs a g g'" and "ntotal cs a mod 2 = 0"
  shows "(g - g') mod 2 = 1"
proof -
  define N where "N = ntotal cs a"
  from assms have "\<bar>g - g'\<bar> = 1 \<or> \<bar>g - g'\<bar> = N - 1" and "N mod 2 = 0"
    by (auto simp: axis_adjacent_def N_def)
  then show ?thesis by presburger
qed

lemma global_neighbours_colour:
  assumes "global_neighbours cs g g'"
    and "ntotal cs X mod 2 = 0" "ntotal cs Y mod 2 = 0" "ntotal cs Z mod 2 = 0"
  shows "colour g \<noteq> colour g'"
proof -
  obtain x y z x' y' z' where g: "g = (x, y, z)" "g' = (x', y', z')" by (cases g; cases g')
  from assms(1) consider "(x - x') mod 2 = 1" "y = y'" "z = z'"
    | "x = x'" "(y - y') mod 2 = 1" "z = z'" | "x = x'" "y = y'" "(z - z') mod 2 = 1"
    unfolding g global_neighbours_def
    using axis_adjacent_parity assms(2-4) by auto
  then have "((x + y + z) - (x' + y' + z')) mod 2 = 1"
    by cases (simp_all add: algebra_simps)
  from parity_differs [OF this] show ?thesis by (simp add: g colour_def)
qed

lemma ntotal_even:
  assumes "even_extents cs" "exact_decomposition cs"
  shows "ntotal cs X mod 2 = 0" "ntotal cs Y mod 2 = 0" "ntotal cs Z mod 2 = 0"
  using assms
  by (simp_all add: even_extents_def exact_decomposition_def even_iff_mod_2_eq_zero [symmetric])

lemma pass_sites_not_global_neighbours:
  assumes "pass = 0 \<or> pass = 1" "even_extents cs" "exact_decomposition cs"
    and "s \<in> set (pass_sites cs pass)" "t \<in> set (pass_sites cs pass)"
  shows "\<not> global_neighbours cs (global_site cs p s) (global_site cs q t)"
proof
  assume "global_neighbours cs (global_site cs p s) (global_site cs q t)"
  from global_neighbours_colour [OF this ntotal_even [OF assms(2,3)]]
  have "colour s \<noteq> colour t" by (simp add: colour_global_site [OF assms(2)])
  with assms(1,4,5) show False by (auto simp: pass_sites_interior_colour)
qed

lemma pass_sites_do_not_read_each_other:
  assumes pass: "pass = 0 \<or> pass = 1" and h: "1 \<le> nhalo cs"
    and s: "s \<in> set (pass_sites cs pass)" and t: "t \<in> set (pass_sites cs pass)"
  shows "site_index cs t \<notin> stencil_addresses cs (site_index cs s)"
proof
  assume a: "site_index cs t \<in> stencil_addresses cs (site_index cs s)"
  obtain xs ys zs where st: "cs_strides cs = (xs, ys, zs)" by (cases "cs_strides cs")
  obtain i j k where sv: "s = (i, j, k)" by (cases s)
  from s t pass have si: "s \<in> interior cs" and ti: "t \<in> interior cs"
    by (auto simp: pass_sites_interior_colour)
  have ts: "t \<in> storage cs" using ti h by (auto simp: interior_def storage_def)
  from a st sv obtain u where u: "site_index cs t = site_index cs u" and n: "stencil_neighbours s u"
    and us: "u \<in> storage cs"
  proof -
    from a st sv consider
        "site_index cs t = site_index cs (i + 1, j, k)" | "site_index cs t = site_index cs (i - 1, j, k)"
      | "site_index cs t = site_index cs (i, j + 1, k)" | "site_index cs t = site_index cs (i, j - 1, k)"
      | "site_index cs t = site_index cs (i, j, k + 1)" | "site_index cs t = site_index cs (i, j, k - 1)"
      by (auto simp: stencil_addresses_def site_index_def cs_index_shift [OF st])
    then show thesis
    proof cases
      case 1 with that [of "(i + 1, j, k)"] si h sv show ?thesis
        by (auto simp: stencil_neighbours_def interior_def storage_def)
    next
      case 2 with that [of "(i - 1, j, k)"] si h sv show ?thesis
        by (auto simp: stencil_neighbours_def interior_def storage_def)
    next
      case 3 with that [of "(i, j + 1, k)"] si h sv show ?thesis
        by (auto simp: stencil_neighbours_def interior_def storage_def)
    next
      case 4 with that [of "(i, j - 1, k)"] si h sv show ?thesis
        by (auto simp: stencil_neighbours_def interior_def storage_def)
    next
      case 5 with that [of "(i, j, k + 1)"] si h sv show ?thesis
        by (auto simp: stencil_neighbours_def interior_def storage_def)
    next
      case 6 with that [of "(i, j, k - 1)"] si h sv show ?thesis
        by (auto simp: stencil_neighbours_def interior_def storage_def)
    qed
  qed
  from site_index_inj [OF ts us u] have "t = u" .
  with n pass_sites_not_neighbours [OF pass s t] show False by simp
qed

text \<open>A pass relaxes all its sites from the potential it started with\<close>

lemma foldl_sites_parallel:
  fixes res upd :: "field \<Rightarrow> int \<Rightarrow> real"
  assumes loc: "\<And>psi psi' i. psi' i = psi i \<Longrightarrow> \<forall>a \<in> N i. psi' a = psi a
      \<Longrightarrow> res psi' i = res psi i \<and> upd psi' i = upd psi i"
    and "distinct xs" and "\<forall>i \<in> set xs. \<forall>j \<in> set xs. j \<notin> N i"
  shows "foldl (\<lambda>st i. case st of (psi, rn) \<Rightarrow> (psi(i := upd psi i), rn + \<bar>res psi i\<bar>))
           (psi, acc) xs
       = (\<lambda>a. if a \<in> set xs then upd psi a else psi a, acc + (\<Sum>i\<leftarrow>xs. \<bar>res psi i\<bar>))"
  using assms(2,3)
proof (induction xs arbitrary: psi acc)
  case Nil
  then show ?case by simp
next
  case (Cons x xs)
  let ?psi1 = "psi(x := upd psi x)"
  have d: "distinct xs" and n: "\<forall>i \<in> set xs. \<forall>j \<in> set xs. j \<notin> N i"
    using Cons.prems by simp_all
  have same: "res ?psi1 i = res psi i \<and> upd ?psi1 i = upd psi i" if "i \<in> set xs" for i
  proof (rule loc)
    from that Cons.prems(1) show "?psi1 i = psi i" by auto
    from that Cons.prems(2) have "x \<notin> N i" by simp
    then show "\<forall>a \<in> N i. ?psi1 a = psi a" by auto
  qed
  have s: "(\<Sum>i\<leftarrow>xs. \<bar>res ?psi1 i\<bar>) = (\<Sum>i\<leftarrow>xs. \<bar>res psi i\<bar>)"
    by (rule arg_cong [where f = sum_list], rule map_cong) (simp_all add: same)
  have f: "(\<lambda>a. if a \<in> set xs then upd ?psi1 a else ?psi1 a)
      = (\<lambda>a. if a \<in> set (x # xs) then upd psi a else psi a)"
    using Cons.prems(1) by (auto simp: fun_eq_iff same)
  let ?F = "\<lambda>st i. case st of (psi, rn) \<Rightarrow> (psi(i := upd psi i), rn + \<bar>res psi i\<bar>)"
  have "foldl ?F (psi, acc) (x # xs) = foldl ?F (?psi1, acc + \<bar>res psi x\<bar>) xs"
    by simp
  also have "\<dots> = (\<lambda>a. if a \<in> set xs then upd ?psi1 a else ?psi1 a,
      acc + \<bar>res psi x\<bar> + (\<Sum>i\<leftarrow>xs. \<bar>res ?psi1 i\<bar>))"
    by (rule Cons.IH [OF d n])
  also have "\<dots> = (\<lambda>a. if a \<in> set (x # xs) then upd psi a else psi a,
      acc + (\<Sum>i\<leftarrow>x # xs. \<bar>res psi i\<bar>))"
    unfolding s f by simp
  finally show ?case .
qed

lemma residual_poisson_local:
  assumes "psi' index = psi index" "\<forall>a \<in> stencil_addresses cs index. psi' a = psi a"
  shows "residual_poisson cs prm rho_elec psi' index = residual_poisson cs prm rho_elec psi index"
  using assms
  by (cases "cs_strides cs")
    (simp add: residual_poisson_def dpsi_stencil_def stencil_addresses_def addr_rank0_def)

lemma residual_vare_local:
  assumes "psi' index = psi index" "\<forall>a \<in> stencil_addresses cs index. psi' a = psi a"
  shows "residual_vare cs prm fepsilon rho_elec psi' index
       = residual_vare cs prm fepsilon rho_elec psi index"
  using assms
  by (cases "cs_strides cs")
    (simp add: residual_vare_def depsi_vare_def stencil_addresses_def addr_rank0_def Let_def)

lemma pass_indices:
  assumes "pass = 0 \<or> pass = 1" "1 \<le> nhalo cs"
  shows "distinct (map (site_index cs) (pass_sites cs pass))"
    and "\<forall>i \<in> set (map (site_index cs) (pass_sites cs pass)).
           \<forall>j \<in> set (map (site_index cs) (pass_sites cs pass)). j \<notin> stencil_addresses cs i"
proof -
  have st: "s \<in> storage cs" if "s \<in> set (pass_sites cs pass)" for s
    using that assms by (auto simp: pass_sites_interior_colour interior_def storage_def)
  have "inj_on (site_index cs) (set (pass_sites cs pass))"
    by (rule inj_onI) (rule site_index_inj [of _ cs], simp_all add: st)
  then show "distinct (map (site_index cs) (pass_sites cs pass))"
    by (simp add: distinct_map distinct_pass_sites)
  show "\<forall>i \<in> set (map (site_index cs) (pass_sites cs pass)).
           \<forall>j \<in> set (map (site_index cs) (pass_sites cs pass)). j \<notin> stencil_addresses cs i"
    using pass_sites_do_not_read_each_other [OF assms] by auto
qed

lemma sor_pass_parallel:
  assumes "pass = 0 \<or> pass = 1" "1 \<le> nhalo cs"
  shows "sor_pass cs prm rho_elec om pass (psi, acc) =
     (\<lambda>a. if a \<in> site_index cs ` set (pass_sites cs pass)
           then psi a - om * residual_poisson cs prm rho_elec psi a / (- 6 * epsilon prm)
           else psi a,
      acc + (\<Sum>s\<leftarrow>pass_sites cs pass.
               \<bar>residual_poisson cs prm rho_elec psi (site_index cs s)\<bar>))"
proof -
  let ?res = "residual_poisson cs prm rho_elec"
  let ?upd = "\<lambda>psi a. psi a - om * ?res psi a / (- 6 * epsilon prm)"
  have b: "(\<lambda>st i. sor_site cs prm rho_elec om st i)
      = (\<lambda>st i. case st of (psi, rn) \<Rightarrow> (psi(i := ?upd psi i), rn + \<bar>?res psi i\<bar>))"
    by (simp add: fun_eq_iff sor_site_def Let_def addr_rank0_def)
  have "sor_pass cs prm rho_elec om pass (psi, acc)
      = foldl (\<lambda>st i. sor_site cs prm rho_elec om st i) (psi, acc)
          (map (site_index cs) (pass_sites cs pass))"
    by (simp add: sor_pass_def foldl_map)
  also have "\<dots> = (\<lambda>a. if a \<in> set (map (site_index cs) (pass_sites cs pass))
                       then ?upd psi a else psi a,
      acc + (\<Sum>i\<leftarrow>map (site_index cs) (pass_sites cs pass). \<bar>?res psi i\<bar>))"
    unfolding b
  proof (rule foldl_sites_parallel [where N = "stencil_addresses cs"])
    fix psi psi' :: field and i
    assume "psi' i = psi i" "\<forall>a \<in> stencil_addresses cs i. psi' a = psi a"
    then show "?res psi' i = ?res psi i \<and> ?upd psi' i = ?upd psi i"
      using residual_poisson_local [of psi' i psi cs prm rho_elec] by simp
  qed (rule pass_indices [OF assms])+
  finally show ?thesis by (simp add: comp_def)
qed

lemma vare_sweep_parallel:
  assumes "pass = 0 \<or> pass = 1" "1 \<le> nhalo cs"
  shows "vare_sweep cs prm fepsilon rho_elec om pass (psi, acc) =
     (\<lambda>a. if a \<in> site_index cs ` set (pass_sites cs pass)
           then psi a - om * residual_vare cs prm fepsilon rho_elec psi a / (- 6 * fepsilon a)
           else psi a,
      acc + (\<Sum>s\<leftarrow>pass_sites cs pass.
               \<bar>residual_vare cs prm fepsilon rho_elec psi (site_index cs s)\<bar>))"
proof -
  let ?res = "residual_vare cs prm fepsilon rho_elec"
  let ?upd = "\<lambda>psi a. psi a - om * ?res psi a / (- 6 * fepsilon a)"
  have b: "(\<lambda>st i. vare_site cs prm fepsilon rho_elec om st i)
      = (\<lambda>st i. case st of (psi, rn) \<Rightarrow> (psi(i := ?upd psi i), rn + \<bar>?res psi i\<bar>))"
    by (simp add: fun_eq_iff vare_site_def Let_def addr_rank0_def)
  have "vare_sweep cs prm fepsilon rho_elec om pass (psi, acc)
      = foldl (\<lambda>st i. vare_site cs prm fepsilon rho_elec om st i) (psi, acc)
          (map (site_index cs) (pass_sites cs pass))"
    by (simp add: vare_sweep_def foldl_map)
  also have "\<dots> = (\<lambda>a. if a \<in> set (map (site_index cs) (pass_sites cs pass))
                       then ?upd psi a else psi a,
      acc + (\<Sum>i\<leftarrow>map (site_index cs) (pass_sites cs pass). \<bar>?res psi i\<bar>))"
    unfolding b
  proof (rule foldl_sites_parallel [where N = "stencil_addresses cs"])
    fix psi psi' :: field and i
    assume "psi' i = psi i" "\<forall>a \<in> stencil_addresses cs i. psi' a = psi a"
    then show "?res psi' i = ?res psi i \<and> ?upd psi' i = ?upd psi i"
      using residual_vare_local [of psi' i psi cs prm fepsilon rho_elec] by simp
  qed (rule pass_indices [OF assms])+
  finally show ?thesis by (simp add: comp_def)
qed

text \<open>
  C2. One pass of either solver visits exactly the interior sites of one checkerboard
  colour \<open>(i + j + k) mod 2\<close>; it leaves the potential as it was at every other address,
  and (the sites having a halo around them) it relaxes the potential at each of these
  sites by \<open>omega\<close> times the residual there over \<open>-6\<close> times the permittivity, the
  residual being that of the potential the pass started with. No two sites of a pass are
  neighbours in the 6-point stencil; with a halo, none is read by the stencil of another;
  and with even local extents the same holds across process boundaries, where the global
  position of a site is its local one plus the offset of its process.
\<close>

theorem checkerboard_pass:
  "(pass = 0 \<or> pass = 1) \<longrightarrow>
     set (pass_sites cs pass) = {s \<in> interior cs. colour s = (1 + pass) mod 2}
   \<and> (\<forall>index. index \<notin> site_index cs ` set (pass_sites cs pass) \<longrightarrow>
         fst (sor_pass cs prm rho_elec om pass (psi, rn)) index = psi index
       \<and> fst (vare_sweep cs prm fepsilon rho_elec om pass (psi, rn)) index = psi index)
   \<and> (1 \<le> nhalo cs \<longrightarrow>
        (\<forall>s \<in> set (pass_sites cs pass).
           fst (sor_pass cs prm rho_elec om pass (psi, rn)) (site_index cs s)
             = psi (site_index cs s)
               - om * (epsilon prm * dpsi_stencil cs psi (site_index cs s)
                        + unit_charge prm * beta prm * rho_elec (site_index cs s))
                 / (- 6 * epsilon prm)
         \<and> fst (vare_sweep cs prm fepsilon rho_elec om pass (psi, rn)) (site_index cs s)
             = psi (site_index cs s)
               - om * (depsi_vare cs fepsilon psi (site_index cs s)
                        + unit_charge prm * beta prm * rho_elec (site_index cs s))
                 / (- 6 * fepsilon (site_index cs s))))
   \<and> (\<forall>s \<in> set (pass_sites cs pass). \<forall>t \<in> set (pass_sites cs pass).
         \<not> stencil_neighbours s t
       \<and> (1 \<le> nhalo cs \<longrightarrow> site_index cs t \<notin> stencil_addresses cs (site_index cs s))
       \<and> (even_extents cs \<and> exact_decomposition cs \<longrightarrow>
            \<not> global_neighbours cs (global_site cs p s) (global_site cs q t)))"
proof (intro impI conjI allI ballI)
  assume pass: "pass = 0 \<or> pass = 1"
  show "set (pass_sites cs pass) = {s \<in> interior cs. colour s = (1 + pass) mod 2}"
    by (rule pass_sites_interior_colour [OF pass])
  {
    fix index
    assume "index \<notin> site_index cs ` set (pass_sites cs pass)"
    then show "fst (sor_pass cs prm rho_elec om pass (psi, rn)) index = psi index"
      and "fst (vare_sweep cs prm fepsilon rho_elec om pass (psi, rn)) index = psi index"
      using sor_pass_frame [of index cs pass prm rho_elec om "(psi, rn)"]
        vare_sweep_frame [of index cs pass prm fepsilon rho_elec om "(psi, rn)"]
      by simp_all
  }
  {
    fix s
    assume h: "1 \<le> nhalo cs" and s: "s \<in> set (pass_sites cs pass)"
    show "fst (sor_pass cs prm rho_elec om pass (psi, rn)) (site_index cs s)
             = psi (site_index cs s)
               - om * (epsilon prm * dpsi_stencil cs psi (site_index cs s)
                        + unit_charge prm * beta prm * rho_elec (site_index cs s))
                 / (- 6 * epsilon prm)"
      using s by (simp add: sor_pass_parallel [OF pass h] residual_poisson_def)
    show "fst (vare_sweep cs prm fepsilon rho_elec om pass (psi, rn)) (site_index cs s)
             = psi (site_index cs s)
               - om * (depsi_vare cs fepsilon psi (site_index cs s)
                        + unit_charge prm * beta prm * rho_elec (site_index cs s))
                 / (- 6 * fepsilon (site_index cs s))"
      using s by (simp add: vare_sweep_parallel [OF pass h] residual_vare_def)
  }
  {
    fix s t
    assume s: "s \<in> set (pass_sites cs pass)" and t: "t \<in> set (pass_sites cs pass)"
    show "\<not> stencil_neighbours s t"
      by (rule pass_sites_not_neighbours [OF pass s t])
    show "site_index cs t \<notin> stencil_addresses cs (site_index cs s)" if "1 \<le> nhalo cs"
      by (rule pass_sites_do_not_read_each_other [OF pass that s t])
    show "\<not> global_neighbours cs (global_site cs p s) (global_site cs q t)"
      if "even_extents cs \<and> exact_decomposition cs"
      using pass_sites_not_global_neighbours [OF pass _ _ s t] that by blast
  }
qed

lemma cs_pair_simps [simp]:
  "ntotal cs_pair a = (if a = X then 4 else 2)" "ltot cs_pair a = (if a = X then 4 else 2)"
  "nlocal cs_pair a = 2" "nhalo cs_pair = 1"
  "cartsz cs_pair a = (if a = X then 2 else 1)" "periodic cs_pair a = True"
  by (simp_all add: cs_pair_def)

lemma pass_sites_pair:
  "pass_sites cs_pair 0 = [(1, 1, 1), (1, 2, 2), (2, 1, 2), (2, 2, 1)]"
  "pass_sites cs_pair 1 = [(1, 1, 2), (1, 2, 1), (2, 1, 1), (2, 2, 2)]"
  by (simp_all add: pass_sites_def upto.simps kc_loop.simps)

lemma strides_pair: "cs_strides cs_pair = (16, 4, 1)"
  by (simp add: cs_strides_def nall_def)

lemma site_index_pair_values:
  "site_index cs_pair (1, 1, 1) = 21" "site_index cs_pair (2, 1, 2) = 38"
  by (simp_all add: site_index_def cs_index_def strides_pair)

theorem checkerboard_pass_witness:
  "((0::int) = 0 \<or> (0::int) = 1)
   \<and> 0 \<notin> site_index cs_pair ` set (pass_sites cs_pair 0)
   \<and> (2, 1, 2) \<in> set (pass_sites cs_pair 0) \<and> (1, 1, 1) \<in> set (pass_sites cs_pair 0)
   \<and> 1 \<le> nhalo cs_pair \<and> even_extents cs_pair \<and> exact_decomposition cs_pair
   \<and> set (pass_sites cs_pair 0) = {s \<in> interior cs_pair. colour s = 1}
   \<and> fst (sor_pass cs_pair prm_small (one_field ()) 1 0 (psi_spike, 0)) 0 = 0
   \<and> fst (sor_pass cs_pair prm_small (one_field ()) 1 0 (psi_spike, 0)) 21 = 1 / 3
   \<and> fst (vare_sweep cs_pair prm_small eps_step (one_field ()) 1 0 (psi_spike, 0)) 21 = 5 / 16
   \<and> \<not> stencil_neighbours (2, 1, 2) (1, 1, 1)
   \<and> site_index cs_pair (1, 1, 1) \<notin> stencil_addresses cs_pair (site_index cs_pair (2, 1, 2))
   \<and> \<not> global_neighbours cs_pair (global_site cs_pair (0, 0, 0) (2, 1, 2))
         (global_site cs_pair (1, 0, 0) (1, 1, 1))"
proof -
  have m: "(2, 1, 2) \<in> set (pass_sites cs_pair 0)" "(1, 1, 1) \<in> set (pass_sites cs_pair 0)"
    by (simp_all add: pass_sites_pair)
  have f: "0 \<notin> site_index cs_pair ` set (pass_sites cs_pair 0)"
    by (simp add: pass_sites_pair site_index_def cs_index_def cs_strides_def nall_def)
  have g: "1 \<le> nhalo cs_pair" "even_extents cs_pair" "exact_decomposition cs_pair"
    by (simp_all add: even_extents_def exact_decomposition_def)
  have d: "dpsi_stencil cs_pair psi_spike 21 = 1"
    by (simp add: dpsi_stencil_def strides_pair addr_rank0_def psi_spike_def)
  have e: "depsi_vare cs_pair eps_step psi_spike 21 = 11 / 4"
    by (simp add: depsi_vare_def strides_pair addr_rank0_def psi_spike_def eps_step_def Let_def)
  note t = checkerboard_pass
    [where pass = 0 and cs = cs_pair and prm = prm_small and rho_elec = "one_field ()"
      and om = 1 and psi = psi_spike and rn = 0 and fepsilon = eps_step
      and p = "(0, 0, 0)" and q = "(1, 0, 0)"]
  from t have 1: "set (pass_sites cs_pair 0) = {s \<in> interior cs_pair. colour s = 1}" by simp
  from t f have 2: "fst (sor_pass cs_pair prm_small (one_field ()) 1 0 (psi_spike, 0)) 0 = 0"
    by (simp add: psi_spike_def)
  from t m(2) g(1)
  have "fst (sor_pass cs_pair prm_small (one_field ()) 1 0 (psi_spike, 0))
          (site_index cs_pair (1, 1, 1))
      = psi_spike (site_index cs_pair (1, 1, 1))
        - 1 * (epsilon prm_small * dpsi_stencil cs_pair psi_spike (site_index cs_pair (1, 1, 1))
               + unit_charge prm_small * beta prm_small
                 * one_field () (site_index cs_pair (1, 1, 1)))
          / (- 6 * epsilon prm_small)"
    and "fst (vare_sweep cs_pair prm_small eps_step (one_field ()) 1 0 (psi_spike, 0))
          (site_index cs_pair (1, 1, 1))
      = psi_spike (site_index cs_pair (1, 1, 1))
        - 1 * (depsi_vare cs_pair eps_step psi_spike (site_index cs_pair (1, 1, 1))
               + unit_charge prm_small * beta prm_small
                 * one_field () (site_index cs_pair (1, 1, 1)))
          / (- 6 * eps_step (site_index cs_pair (1, 1, 1)))"
    by blast+
  then have 6: "fst (sor_pass cs_pair prm_small (one_field ()) 1 0 (psi_spike, 0)) 21 = 1 / 3"
    and 7: "fst (vare_sweep cs_pair prm_small eps_step (one_field ()) 1 0 (psi_spike, 0)) 21
      = 5 / 16"
    by (simp_all add: site_index_pair_values d e psi_spike_def one_field_def eps_step_def)
  from t m g have 3: "\<not> stencil_neighbours (2, 1, 2) (1, 1, 1)"
    and 4: "site_index cs_pair (1, 1, 1) \<notin> stencil_addresses cs_pair (site_index cs_pair (2, 1, 2))"
    and 5: "\<not> global_neighbours cs_pair (global_site cs_pair (0, 0, 0) (2, 1, 2))
         (global_site cs_pair (1, 0, 0) (1, 1, 1))"
    by blast+
  from m f g 1 2 3 4 5 6 7 show ?thesis by simp
qed

lemma depsi_vare_closed_form:
  assumes "cs_strides cs = (xs, ys, zs)"
  shows "depsi_vare cs fepsilon psi index =
     fepsilon index * (psi (index + xs) + psi (index - xs) + psi (index + ys)
        + psi (index - ys) + psi (index + zs) + psi (index - zs) - 6 * psi index)
     + (1 / 4) * (fepsilon (index + xs) - fepsilon (index - xs))
         * (psi (index + xs) - psi (index - xs))
     + (1 / 4) * (fepsilon (index + ys) - fepsilon (index - ys))
         * (psi (index + ys) - psi (index - ys))
     + (1 / 4) * (fepsilon (index + zs) - fepsilon (index - zs))
         * (psi (index + zs) - psi (index - zs))"
  using assms by (simp add: depsi_vare_def addr_rank0_def Let_def algebra_simps)

lemma depsi_flux_conservative_expand:
  assumes "cs_strides cs = (xs, ys, zs)"
  shows "depsi_flux_conservative cs fepsilon psi index =
       (1 / 2) * (fepsilon index + fepsilon (index + xs)) * (psi (index + xs) - psi index)
     + (1 / 2) * (fepsilon index + fepsilon (index - xs)) * (psi (index - xs) - psi index)
     + (1 / 2) * (fepsilon index + fepsilon (index + ys)) * (psi (index + ys) - psi index)
     + (1 / 2) * (fepsilon index + fepsilon (index - ys)) * (psi (index - ys) - psi index)
     + (1 / 2) * (fepsilon index + fepsilon (index + zs)) * (psi (index + zs) - psi index)
     + (1 / 2) * (fepsilon index + fepsilon (index - zs)) * (psi (index - zs) - psi index)"
  using assms by (simp add: depsi_flux_conservative_def)

lemma depsi_vare_flux_linear:
  assumes st: "cs_strides cs = (xs, ys, zs)"
    and x: "fepsilon (index + xs) + fepsilon (index - xs) = 2 * fepsilon index"
    and y: "fepsilon (index + ys) + fepsilon (index - ys) = 2 * fepsilon index"
    and z: "fepsilon (index + zs) + fepsilon (index - zs) = 2 * fepsilon index"
  shows "depsi_vare cs fepsilon psi index = depsi_flux_conservative cs fepsilon psi index"
proof -
  have x': "fepsilon (index - xs) = 2 * fepsilon index - fepsilon (index + xs)"
    and y': "fepsilon (index - ys) = 2 * fepsilon index - fepsilon (index + ys)"
    and z': "fepsilon (index - zs) = 2 * fepsilon index - fepsilon (index + zs)"
    using x y z by simp_all
  show ?thesis
    unfolding depsi_vare_closed_form [OF st] depsi_flux_conservative_expand [OF st] x' y' z'
    by (simp add: field_simps)
qed

lemma vare_site_update:
  "vare_site cs prm fepsilon rho_elec om (psi, rn) index =
     (psi(index := psi index
              - om * (depsi_vare cs fepsilon psi index
                       + unit_charge prm * beta prm * rho_elec index) / (- 6 * fepsilon index)),
      rn + \<bar>depsi_vare cs fepsilon psi index + unit_charge prm * beta prm * rho_elec index\<bar>)"
  by (simp add: vare_site_def residual_vare_def addr_rank0_def Let_def)

lemma strides_small: "cs_strides cs_small = (16, 4, 1)"
  by (simp add: cs_strides_def nall_def)

lemma depsi_step_values:
  "depsi_vare cs_small eps_step psi_spike 21 = 11 / 4"
  "depsi_flux_conservative cs_small eps_step psi_spike 21 = 3"
  by (simp_all add: depsi_vare_closed_form [OF strides_small]
      depsi_flux_conservative_expand [OF strides_small] eps_step_def psi_spike_def)

text \<open>
  C3, as stated: the operator value \<open>depsi\<close> of \<open>psi_sor_vare_poisson\<close> equals the
  flux-conservative form with the mean permittivity on each face. It does not: with the
  permittivity 1, 2, 4 along \<open>X\<close> through the site at address 21 of the small system and
  the potential 1 at its neighbour 37 only, the code computes 11/4 and the
  flux-conservative form is 3.
\<close>

theorem depsi_not_flux_conservative:
  "depsi_vare cs_small eps_step psi_spike 21 = 11 / 4
   \<and> depsi_flux_conservative cs_small eps_step psi_spike 21 = 3
   \<and> depsi_vare cs_small eps_step psi_spike 21
       \<noteq> depsi_flux_conservative cs_small eps_step psi_spike 21"
  by (simp add: depsi_step_values)

text \<open>
  C3, amended: \<open>depsi\<close> is the permittivity of the site times the 6-point Laplacian of
  the potential plus, for each axis, a quarter of the product of the central differences
  of the permittivity and of the potential. It equals the flux-conservative form wherever
  the permittivity of the site is the mean of its two neighbours' on each axis, as for a
  constant permittivity. The relaxation divides by \<open>-6\<close> times the permittivity of the
  site.
\<close>

theorem depsi_product_rule_form:
  "cs_strides cs = (xs, ys, zs) \<longrightarrow>
     depsi_vare cs fepsilon psi index =
       fepsilon index * (psi (index + xs) + psi (index - xs) + psi (index + ys)
          + psi (index - ys) + psi (index + zs) + psi (index - zs) - 6 * psi index)
       + (1 / 4) * (fepsilon (index + xs) - fepsilon (index - xs))
           * (psi (index + xs) - psi (index - xs))
       + (1 / 4) * (fepsilon (index + ys) - fepsilon (index - ys))
           * (psi (index + ys) - psi (index - ys))
       + (1 / 4) * (fepsilon (index + zs) - fepsilon (index - zs))
           * (psi (index + zs) - psi (index - zs))
   \<and> (fepsilon (index + xs) + fepsilon (index - xs) = 2 * fepsilon index
        \<and> fepsilon (index + ys) + fepsilon (index - ys) = 2 * fepsilon index
        \<and> fepsilon (index + zs) + fepsilon (index - zs) = 2 * fepsilon index \<longrightarrow>
        depsi_vare cs fepsilon psi index = depsi_flux_conservative cs fepsilon psi index)
   \<and> vare_site cs prm fepsilon rho_elec om (psi, rn) index =
       (psi(index := psi index
              - om * (depsi_vare cs fepsilon psi index
                       + unit_charge prm * beta prm * rho_elec index) / (- 6 * fepsilon index)),
        rn + \<bar>depsi_vare cs fepsilon psi index + unit_charge prm * beta prm * rho_elec index\<bar>)"
  using depsi_vare_closed_form [of cs xs ys zs fepsilon psi index]
    depsi_vare_flux_linear [of cs xs ys zs fepsilon index psi]
    vare_site_update [of cs prm fepsilon rho_elec om psi rn index]
  by blast

theorem depsi_product_rule_form_witness:
  "cs_strides cs_small = (16, 4, 1)
   \<and> one_field () (21 + 16) + one_field () (21 - 16) = 2 * one_field () 21
   \<and> one_field () (21 + 4) + one_field () (21 - 4) = 2 * one_field () 21
   \<and> one_field () (21 + 1) + one_field () (21 - 1) = 2 * one_field () 21
   \<and> depsi_vare cs_small eps_step psi_spike 21 = 11 / 4
   \<and> depsi_vare cs_small (one_field ()) psi_spike 21
       = depsi_flux_conservative cs_small (one_field ()) psi_spike 21
   \<and> fst (vare_site cs_small prm_small eps_step (zero_field ()) 1 (psi_spike, 0) 21) 21 = 11 / 48"
proof -
  have l: "one_field () (21 + 16) + one_field () (21 - 16) = 2 * one_field () 21"
    "one_field () (21 + 4) + one_field () (21 - 4) = 2 * one_field () 21"
    "one_field () (21 + 1) + one_field () (21 - 1) = 2 * one_field () 21"
    by (simp_all add: one_field_def)
  note a = depsi_product_rule_form
    [where cs = cs_small and xs = 16 and ys = 4 and zs = 1 and fepsilon = eps_step
      and psi = psi_spike and index = 21 and prm = prm_small and rho_elec = "zero_field ()"
      and om = 1 and rn = 0]
  note b = depsi_product_rule_form
    [where cs = cs_small and xs = 16 and ys = 4 and zs = 1 and fepsilon = "one_field ()"
      and psi = psi_spike and index = 21 and prm = prm_small and rho_elec = "zero_field ()"
      and om = 1 and rn = 0]
  from a strides_small have 1: "depsi_vare cs_small eps_step psi_spike 21 = 11 / 4"
    by (simp add: eps_step_def psi_spike_def)
  from b strides_small l have 2: "depsi_vare cs_small (one_field ()) psi_spike 21
       = depsi_flux_conservative cs_small (one_field ()) psi_spike 21"
    by blast
  from a strides_small 1
  have 3: "fst (vare_site cs_small prm_small eps_step (zero_field ()) 1 (psi_spike, 0) 21) 21
      = 11 / 48"
    by (simp add: eps_step_def psi_spike_def zero_field_def)
  from strides_small l 1 2 3 show ?thesis by blast
qed

lemma vare_iteration_printed:
  assumes "vare_iteration cs prm procs halo fepsilon rho_elec its n st = Inr r" and "\<not> fst r"
  shows "printed (snd r) =
     (if n = maxits prm - 1
      then printed st @ [Exceeded (n + 1) (fst (rnorm (snd r))) (snd (rnorm (snd r)))]
      else printed st)"
  using assms
  by (auto simp: vare_iteration_def Let_def report_exceeded_def
      dest!: report_converged_keeps split: if_splits)

lemma vare_iteration_total:
  assumes "nfreq prm \<noteq> 0"
  shows "\<exists>r. vare_iteration cs prm procs halo fepsilon rho_elec its n st = Inr r"
  using assms by (auto simp: vare_iteration_def Let_def report_converged_def)

lemma vare_returns:
  assumes "even_extents cs" and "nfreq prm \<noteq> 0"
  shows "\<exists>res. psi_sor_vare_poisson cs prm (procs :: 'p list) halo fepsilon rho_elec psi_init its
           = Inr res"
proof -
  have "\<exists>res. sor_loop (vare_iteration cs prm procs halo fepsilon rho_elec its)
      (maxits prm) 0 (initial_state_vare cs prm fepsilon rho_elec psi_init) = Inr res"
  proof (rule sor_loop_total [where I = "\<lambda>n (st :: 'p sor_state). True"])
    fix n and st :: "'p sor_state"
    show "\<exists>r. vare_iteration cs prm procs halo fepsilon rho_elec its n st = Inr r
       \<and> (\<not> fst r \<longrightarrow> True)"
      using vare_iteration_total [OF assms(2)] by simp
  qed simp
  then show ?thesis
    using assms(1) by (simp add: psi_sor_vare_poisson_def even_extents_def)
qed

lemma vare_exceeded_report:
  assumes "psi_sor_vare_poisson cs prm procs halo fepsilon rho_elec psi_init its = Inr res"
    and "\<not> iteration res < maxits prm" and "1 \<le> maxits prm"
  shows "iteration res = maxits prm \<and> printed res \<noteq> []
     \<and> last (printed res) = Exceeded (maxits prm) (fst (rnorm res)) (snd (rnorm res))"
proof -
  let ?E = "\<lambda>st. printed st \<noteq> []
     \<and> last (printed st) = Exceeded (maxits prm) (fst (rnorm st)) (snd (rnorm st))"
  let ?I = "\<lambda>(n::int) st. 0 \<le> n \<and> n \<le> maxits prm \<and> (n = maxits prm \<longrightarrow> ?E st)"
  let ?Q = "\<lambda>res. \<not> iteration res < maxits prm \<longrightarrow> iteration res = maxits prm \<and> ?E res"
  from assms(1) have run: "sor_loop (vare_iteration cs prm procs halo fepsilon rho_elec its)
      (maxits prm) 0 (initial_state_vare cs prm fepsilon rho_elec psi_init) = Inr res"
    by (simp add: psi_sor_vare_poisson_def split: if_splits)
  have "?Q res"
  proof (rule sor_loop_rule [OF run, where I = ?I and Q = ?Q])
    show "?I 0 (initial_state_vare cs prm fepsilon rho_elec psi_init)"
      using assms(3) by simp
  next
    fix n st r
    assume I: "?I n st" and n: "n < maxits prm"
      and it: "vare_iteration cs prm procs halo fepsilon rho_elec its n st = Inr r"
    show "if fst r then ?Q ((snd r)\<lparr>iteration := n\<rparr>) else ?I (n + 1) (snd r)"
    proof (cases "fst r")
      case True
      then show ?thesis using n by simp
    next
      case False
      from vare_iteration_printed [OF it False] I n False
      show ?thesis by auto
    qed
  next
    fix n st
    assume "?I n st" and "\<not> n < maxits prm"
    then show "?Q (st\<lparr>iteration := n\<rparr>)" by auto
  qed
  with assms(2) show ?thesis by blast
qed







lemma prm_strict_simps [simp]:
  "epsilon prm_strict = 1" "reltol prm_strict = 1 / 10000000"
  "abstol prm_strict = 0" "maxits prm_strict = 1" "beta prm_strict = 1"
  "unit_charge prm_strict = 1" "nfreq prm_strict = 1"
  by (simp_all add: prm_strict_def)

lemma prm_nofreq_simps [simp]:
  "abstol prm_nofreq = 1 / 1000000000" "maxits prm_nofreq = 10" "nfreq prm_nofreq = 0"
  by (simp_all add: prm_nofreq_def)

lemma cs_variants_simps [simp]:
  "nlocal cs_nohalo a = 2" "nhalo cs_nohalo = 0" "ltot cs_nohalo a = 2" "ntotal cs_nohalo a = 2"
  "nlocal cs_unit a = 2" "nhalo cs_unit = 1" "ltot cs_unit a = 1"
  "nlocal cs_odd a = (if a = X then 3 else 2)" "nhalo cs_odd = 1"
  by (simp_all add: cs_nohalo_def cs_unit_def cs_odd_def)

lemma initial_rest_poisson:
  "initial_state_poisson cs prm zero_field zero_field = rest_state 1"
  by (simp add: initial_state_poisson_def zero_field_eq rnorm_local0_poisson_at_rest
      rest_state_def)

lemma initial_rest_vare:
  "initial_state_vare cs prm fepsilon zero_field zero_field = rest_state 1"
  by (simp add: initial_state_vare_def zero_field_eq rnorm_local0_vare_at_rest rest_state_def)

lemma vare_two_passes_rest:
  "vare_two_passes cs prm no_exchange fepsilon zero_field (rest_state om) = rest_state om"
  by (simp add: vare_two_passes_def vare_pass_def rest_state_def zero_field_eq
      vare_sweep_at_rest no_exchange_def)

lemma vare_iteration_rest:
  "vare_iteration cs prm [()] no_exchange fepsilon zero_field its n (rest_state om) =
     (if 0 < abstol prm
      then report_converged cs prm its ConvergedAbsolute n
             (rest_state (1 / (1 - 0.25 * sor_radius cs * sor_radius cs * om)))
      else Inr (False, report_exceeded prm n
             (rest_state (1 / (1 - 0.25 * sor_radius cs * sor_radius cs * om)))))"
  by (simp add: vare_iteration_def vare_pass_def Let_def allreduce_rnorm_def reduced_def
      rest_state_def zero_field_eq vare_sweep_at_rest no_exchange_def)

lemma sor_loop_break_at:
  assumes "body n st = Inr (True, st')" "n < niteration"
  shows "sor_loop body niteration n st = Inr (st'\<lparr>iteration := n\<rparr>)"
  using assms by (subst sor_loop.simps) simp

lemma sor_loop_last_at:
  assumes "body (niteration - 1) st = Inr (False, st')"
  shows "sor_loop body niteration (niteration - 1) st = Inr (st'\<lparr>iteration := niteration\<rparr>)"
  using sor_loop_last [of body niteration st "(False, st')"] assms by simp

lemma even_small [simp]:
  "even_extents cs_small" "even_extents cs_nohalo" "even_extents cs_unit" "\<not> even_extents cs_odd"
  "even_extents cs_pair"
  by (simp_all add: even_extents_def)

lemma sor_radius_variants [simp]: "sor_radius cs_nohalo = sor_radius cs_small"
  by (simp add: sor_radius_def)



lemma poisson_pass_rest:
  assumes "1 < omega_poisson (sor_radius cs) n pass om"
    "omega_poisson (sor_radius cs) n pass om < 2"
    "omega_denominator (sor_radius cs) n pass om \<noteq> 0"
  shows "poisson_pass cs prm no_exchange zero_field n pass (rest_state om) =
     Inr (rest_state (omega_poisson (sor_radius cs) n pass om))"
  using assms
  by (simp add: poisson_pass_def sor_pass_all_def Let_def rest_state_def zero_field_eq
      sor_pass_at_rest no_exchange_def)

text \<open>
  C4, as stated: both solvers recompute the relaxation parameter after every half-sweep,
  the first time with the seed formula \<open>1 / (1 - radius^2 / 2)\<close>. The solver for
  a varying permittivity does not: after the first half-sweep of its first sweep on the
  small system the parameter is still 1, which the seed formula does not give.
\<close>

theorem vare_omega_not_seeded:
  "omega (vare_pass cs_small prm_small no_exchange one_field zero_field 0
            (initial_state_vare cs_small prm_small one_field zero_field zero_field)) = 1
   \<and> omega (vare_pass cs_small prm_small no_exchange one_field zero_field 0
            (initial_state_vare cs_small prm_small one_field zero_field zero_field))
       \<noteq> 1 / (1 - 0.5 * sor_radius cs_small * sor_radius cs_small)"
proof -
  have "1 < 1 / (1 - 0.5 * sor_radius cs_small * sor_radius cs_small)"
    using omega_small(1) by (simp add: omega_poisson_def)
  then have "1 / (1 - 0.5 * sor_radius cs_small * sor_radius cs_small) \<noteq> 1" by linarith
  moreover have "omega (vare_pass cs_small prm_small no_exchange one_field zero_field 0
            (initial_state_vare cs_small prm_small one_field zero_field zero_field)) = 1"
    by (simp add: initial_state_vare_def)
  ultimately show ?thesis by metis
qed

text \<open>
  C4, amended: in both solvers the relaxation parameter starts at 1 and the radius is
  \<open>1 - (pi^2 / 2) / max(Lx, Lz)^2\<close>. \<open>psi_sor_poisson\<close> recomputes the parameter after
  every half-sweep, with \<open>1 / (1 - radius^2 / 2)\<close> after the first half-sweep of the first
  sweep and with \<open>1 / (1 - radius^2 * omega / 4)\<close> every time after. In
  \<open>psi_sor_vare_poisson\<close> a half-sweep leaves the parameter as it is, and it is recomputed
  once after each full sweep, always with \<open>1 / (1 - radius^2 * omega / 4)\<close>.
\<close>

theorem omega_recurrence:
  "omega (initial_state_poisson cs prm rho_elec psi_init) = 1
   \<and> omega (initial_state_vare cs prm fepsilon rho_elec psi_init) = 1
   \<and> sor_radius cs = 1 - (pi\<^sup>2 / 2) / (max (ltot cs X) (ltot cs Z))\<^sup>2
   \<and> (poisson_pass cs prm halo rho_elec n pass st = Inr st' \<longrightarrow>
        omega st' = (if n = 0 \<and> pass = 0 then 1 / (1 - (sor_radius cs)\<^sup>2 / 2)
                     else 1 / (1 - (sor_radius cs)\<^sup>2 * omega st / 4)))
   \<and> omega (vare_pass cs prm halo fepsilon rho_elec pass st) = omega st
   \<and> (vare_iteration cs prm procs halo fepsilon rho_elec its n st = Inr r \<longrightarrow>
        omega (snd r) = 1 / (1 - (sor_radius cs)\<^sup>2 * omega st / 4))"
proof (intro conjI impI)
  show "sor_radius cs = 1 - (pi\<^sup>2 / 2) / (max (ltot cs X) (ltot cs Z))\<^sup>2"
    by (simp add: sor_radius_formula dmax_def max_def)
next
  assume "poisson_pass cs prm halo rho_elec n pass st = Inr st'"
  from poisson_pass_Inr(1) [OF this]
  show "omega st' = (if n = 0 \<and> pass = 0 then 1 / (1 - (sor_radius cs)\<^sup>2 / 2)
                     else 1 / (1 - (sor_radius cs)\<^sup>2 * omega st / 4))"
    by (simp add: omega_poisson_def power2_eq_square)
next
  assume "vare_iteration cs prm procs halo fepsilon rho_elec its n st = Inr r"
  from vare_iteration_Inr(3) [OF this]
  show "omega (snd r) = 1 / (1 - (sor_radius cs)\<^sup>2 * omega st / 4)"
    by (simp add: power2_eq_square)
qed (simp_all add: initial_state_poisson_def initial_state_vare_def)

theorem omega_recurrence_witness:
  "poisson_pass cs_small prm_small no_exchange zero_field 0 0 (rest_state 1) =
     Inr (rest_state (omega_poisson (sor_radius cs_small) 0 0 1))
   \<and> vare_iteration cs_small prm_strict [()] no_exchange one_field zero_field 0 0 (rest_state 1) =
     Inr (False, (exhausted_small omega_small_vare)\<lparr>iteration := 0\<rparr>)
   \<and> omega (rest_state (omega_poisson (sor_radius cs_small) 0 0 1)) =
       1 / (1 - (sor_radius cs_small)\<^sup>2 / 2)
   \<and> omega (snd (False, (exhausted_small omega_small_vare)\<lparr>iteration := 0\<rparr>)) =
       1 / (1 - (sor_radius cs_small)\<^sup>2 * omega (rest_state 1) / 4)"
proof -
  have p: "poisson_pass cs_small prm_small no_exchange zero_field 0 0 (rest_state 1) =
     Inr (rest_state (omega_poisson (sor_radius cs_small) 0 0 1))"
    by (rule poisson_pass_rest) (rule omega_small)+
  have v: "vare_iteration cs_small prm_strict [()] no_exchange one_field zero_field 0 0
      (rest_state 1) = Inr (False, (exhausted_small omega_small_vare)\<lparr>iteration := 0\<rparr>)"
    by (simp add: vare_iteration_rest report_exceeded_def)
      (simp add: rest_state_def exhausted_small_def omega_small_vare_def)
  from omega_recurrence
    [where cs = cs_small and prm = prm_small and halo = no_exchange and rho_elec = zero_field
      and n = 0 and pass = 0 and st = "rest_state 1"
      and st' = "rest_state (omega_poisson (sor_radius cs_small) 0 0 1)"]
  have "poisson_pass cs_small prm_small no_exchange zero_field 0 0 (rest_state 1) =
     Inr (rest_state (omega_poisson (sor_radius cs_small) 0 0 1)) \<longrightarrow>
     omega (rest_state (omega_poisson (sor_radius cs_small) 0 0 1)) =
       (if (0::int) = 0 \<and> (0::int) = 0 then 1 / (1 - (sor_radius cs_small)\<^sup>2 / 2)
        else 1 / (1 - (sor_radius cs_small)\<^sup>2 * omega (rest_state 1) / 4))"
    by blast
  with p have 1: "omega (rest_state (omega_poisson (sor_radius cs_small) 0 0 1)) =
       1 / (1 - (sor_radius cs_small)\<^sup>2 / 2)" by simp
  from omega_recurrence
    [where cs = cs_small and prm = prm_strict and halo = no_exchange and rho_elec = zero_field
      and n = 0 and st = "rest_state 1" and procs = "[()]" and fepsilon = one_field and its = 0
      and r = "(False, (exhausted_small omega_small_vare)\<lparr>iteration := 0\<rparr>)"] v
  have 2: "omega (snd (False, (exhausted_small omega_small_vare)\<lparr>iteration := 0\<rparr>)) =
       1 / (1 - (sor_radius cs_small)\<^sup>2 * omega (rest_state 1) / 4)" by blast
  from p v 1 2 show ?thesis by blast
qed


lemma integral_small [simp]: "integral_extents cs_small" "exact_decomposition cs_small"
  by (simp_all add: integral_extents_def exact_decomposition_def)




text \<open>A constant permittivity\<close>

lemma depsi_vare_constant:
  assumes "\<And>i. fepsilon i = e"
  shows "depsi_vare cs fepsilon psi index = e * dpsi_stencil cs psi index"
  by (cases "cs_strides cs")
    (simp add: depsi_vare_def dpsi_stencil_def Let_def assms algebra_simps)

lemma residual_vare_constant:
  assumes "\<And>i. fepsilon i = epsilon prm"
  shows "residual_vare cs prm fepsilon rho_elec psi index
       = residual_poisson cs prm rho_elec psi index"
  by (simp add: residual_vare_def residual_poisson_def depsi_vare_constant [OF assms])

lemma vare_site_constant:
  assumes "\<And>i. fepsilon i = epsilon prm"
  shows "vare_site cs prm fepsilon rho_elec om st index = sor_site cs prm rho_elec om st index"
  by (cases st)
    (simp add: vare_site_def sor_site_def residual_vare_constant [OF assms] assms)

lemma vare_sweep_constant:
  assumes "\<And>i. fepsilon i = epsilon prm"
  shows "vare_sweep cs prm fepsilon rho_elec om pass st = sor_pass cs prm rho_elec om pass st"
  by (simp add: vare_sweep_def sor_pass_def vare_site_constant [OF assms])

lemma rnorm_local0_constant:
  assumes "\<And>i. fepsilon i = epsilon prm"
  shows "rnorm_local0_vare cs prm fepsilon rho_elec psi = rnorm_local0_poisson cs prm rho_elec psi"
  by (simp add: rnorm_local0_vare_def rnorm_local0_poisson_def residual_vare_constant [OF assms])

lemma initial_state_constant:
  assumes "\<And>p i. fepsilon p i = epsilon prm"
  shows "initial_state_vare cs prm fepsilon rho_elec psi_init
       = initial_state_poisson cs prm rho_elec psi_init"
  by (simp add: initial_state_vare_def initial_state_poisson_def rnorm_local0_constant assms)

text \<open>The two passes on the small system with a point charge\<close>

lemma prm_thin_simps [simp]:
  "epsilon prm_thin = 1 / 1000000" "reltol prm_thin = 1 / 10000000"
  "abstol prm_thin = 2" "maxits prm_thin = 10" "beta prm_thin = 1"
  "unit_charge prm_thin = 1" "nfreq prm_thin = 1"
  by (simp_all add: prm_thin_def)

lemma pass_sites_small:
  "pass_sites cs_small 0 = [(1, 1, 1), (1, 2, 2), (2, 1, 2), (2, 2, 1)]"
  "pass_sites cs_small 1 = [(1, 1, 2), (1, 2, 1), (2, 1, 1), (2, 2, 2)]"
  by (simp_all add: pass_sites_def upto.simps kc_loop.simps)

lemma all_sites_small:
  "all_sites cs_small = [(1, 1, 1), (1, 1, 2), (1, 2, 1), (1, 2, 2),
                         (2, 1, 1), (2, 1, 2), (2, 2, 1), (2, 2, 2)]"
  by (simp add: all_sites_def upto.simps)

lemma site_index_small: "site_index cs_small (i, j, k) = 16 * i + 4 * j + k"
  by (simp add: site_index_def cs_index_def cs_strides_def nall_def)

lemma residual_thin:
  "residual_poisson cs_small prm_thin (rho_point p) psi index =
     (psi (index + 16) + psi (index - 16) + psi (index + 4) + psi (index - 4)
      + psi (index + 1) + psi (index - 1) - 6 * psi index) / 1000000
     + (if index = 21 then 1 else 0)"
  by (simp add: residual_poisson_def dpsi_stencil_def strides_small addr_rank0_def
      rho_point_def)

lemma sor_site_thin:
  "sor_site cs_small prm_thin (rho_point p) om (psi, rn) index =
     (psi(index := psi index
            + om * residual_poisson cs_small prm_thin (rho_point p) psi index * (1000000 / 6)),
      rn + \<bar>residual_poisson cs_small prm_thin (rho_point p) psi index\<bar>)"
  by (simp add: sor_site_def addr_rank0_def Let_def)

lemma rnorm_local0_thin:
  "rnorm_local0_poisson cs_small prm_thin (rho_point p) (\<lambda>i. 0) = 1"
  by (simp add: rnorm_local0_poisson_def all_sites_small site_index_small residual_thin)

lemma sor_pass_thin_0:
  "sor_pass cs_small prm_thin (rho_point p) 1 0 (\<lambda>i. 0, 0) = (psi_thin_1, 1)"
  by (simp add: sor_pass_def pass_sites_small site_index_small sor_site_thin residual_thin
      psi_thin_1_def fun_eq_iff)

lemma sor_pass_thin_1:
  "sor_pass cs_small prm_thin (rho_point p) om 1 (psi_thin_1, 1) = (psi_thin_2 om, 3 / 2)"
  by (simp add: sor_pass_def pass_sites_small site_index_small sor_site_thin residual_thin
      psi_thin_1_def psi_thin_2_def fun_eq_iff)

lemma eps_thin_constant: "eps_thin p i = epsilon prm_thin"
  by (simp add: eps_thin_def)

lemma initial_thin:
  "initial_state_poisson cs_small prm_thin rho_point zero_field =
     \<lparr>psis = (\<lambda>p i. 0), rnorm_local = (\<lambda>p. (1, 0)), rnorm = (0, 0), omega = 1,
      iteration = 0, printed = []\<rparr>"
  by (simp add: initial_state_poisson_def zero_field_eq rnorm_local0_thin)

lemma radius_small_lower: "1 / 64 \<le> sor_radius cs_small * sor_radius cs_small"
proof -
  have r: "sor_radius cs_small = 1 - pi\<^sup>2 / 8"
    by (simp add: sor_radius_formula dmax_def)
  have "1 / 8 \<le> - sor_radius cs_small" using pi_squared_bounds(1) by (simp add: r)
  then have "(1 / 8) * (1 / 8) \<le> (- sor_radius cs_small) * (- sor_radius cs_small)"
    by (intro mult_mono) simp_all
  then show ?thesis by simp
qed

lemma omega_seed_small_lower: "129 / 128 \<le> omega_poisson (sor_radius cs_small) 0 0 1"
proof -
  define q where "q = sor_radius cs_small * sor_radius cs_small"
  have q: "1 / 64 \<le> q" "q < 1" using radius_small_lower radius_small(2) by (simp_all add: q_def)
  have "129 / 128 \<le> 1 / (1 - 0.5 * q)" using q by (simp add: field_simps)
  then show ?thesis by (simp add: omega_poisson_def q_def mult.assoc)
qed

lemma poisson_iteration_thin:
  "poisson_iteration cs_small prm_thin [()] no_exchange rho_point 0 0
     (initial_state_poisson cs_small prm_thin rho_point zero_field) =
   Inr (True, solved_thin (omega_poisson (sor_radius cs_small) 0 0 1) omega_small_poisson)"
  unfolding initial_thin
  using omega_small
  by (simp add: poisson_iteration_def poisson_pass_def sor_pass_all_def Let_def
      sor_pass_thin_0 sor_pass_thin_1 no_exchange_def allreduce_rnorm_def reduced_def
      report_converged_def ltot_volume_def solved_thin_def omega_small_poisson_def)

lemma psi_sor_poisson_thin:
  "psi_sor_poisson cs_small prm_thin [()] no_exchange rho_point zero_field 0 =
     Inr (solved_thin (omega_poisson (sor_radius cs_small) 0 0 1) omega_small_poisson)"
proof -
  from sor_loop_break_at
    [of "poisson_iteration cs_small prm_thin [()] no_exchange rho_point 0" 0
      "initial_state_poisson cs_small prm_thin rho_point zero_field" _ "maxits prm_thin",
      OF poisson_iteration_thin]
  show ?thesis by (simp add: psi_sor_poisson_def solved_thin_def)
qed

lemma vare_iteration_thin:
  "vare_iteration cs_small prm_thin [()] no_exchange eps_thin rho_point 0 0
     (initial_state_vare cs_small prm_thin eps_thin rho_point zero_field) =
   Inr (True, solved_thin 1 omega_small_vare)"
  unfolding initial_state_constant [of eps_thin prm_thin, OF eps_thin_constant] initial_thin
  by (simp add: vare_iteration_def vare_pass_def Let_def
      vare_sweep_constant [of "eps_thin ()" prm_thin, OF eps_thin_constant]
      sor_pass_thin_0 sor_pass_thin_1 no_exchange_def allreduce_rnorm_def reduced_def
      report_converged_def ltot_volume_def solved_thin_def omega_small_vare_def)

lemma psi_sor_vare_poisson_thin:
  "psi_sor_vare_poisson cs_small prm_thin [()] no_exchange eps_thin rho_point zero_field 0 =
     Inr (solved_thin 1 omega_small_vare)"
proof -
  from sor_loop_break_at
    [of "vare_iteration cs_small prm_thin [()] no_exchange eps_thin rho_point 0" 0
      "initial_state_vare cs_small prm_thin eps_thin rho_point zero_field" _ "maxits prm_thin",
      OF vare_iteration_thin]
  show ?thesis by (simp add: psi_sor_vare_poisson_def solved_thin_def)
qed

lemma thin_difference:
  "psis (solved_thin (omega_poisson (sor_radius cs_small) 0 0 1) omega_small_poisson) () 22
     - psis (solved_thin 1 omega_small_vare) () 22 \<ge> 217"
proof -
  have "psis (solved_thin (omega_poisson (sor_radius cs_small) 0 0 1) omega_small_poisson) () 22
     - psis (solved_thin 1 omega_small_vare) () 22
     = (omega_poisson (sor_radius cs_small) 0 0 1 - 1) * (1000000 / 36)"
    by (simp add: solved_thin_def psi_thin_2_def algebra_simps)
  also have "\<dots> \<ge> (1 / 128) * (1000000 / 36)"
    using omega_seed_small_lower by (intro mult_right_mono) simp_all
  finally show ?thesis by simp
qed

text \<open>
  C7, as stated: with a callback that returns the uniform permittivity at every site,
  the potential of \<open>psi_sor_vare_poisson\<close> matches that of \<open>psi_sor_poisson\<close> within the
  configured tolerance. On the small system with a point charge both solvers converge
  to the absolute tolerance 2 at the first check, and their potentials at address 22
  differ by more than 217, also relative to the potential at address 21: the second
  pass is relaxed with \<open>omega = 1 / (1 - radius^2 / 2)\<close> in one solver and with
  \<open>omega = 1\<close> in the other.
\<close>

theorem vare_differs_from_uniform:
  "psi_sor_poisson cs_small prm_thin [()] no_exchange rho_point zero_field 0 =
     Inr (solved_thin (omega_poisson (sor_radius cs_small) 0 0 1) omega_small_poisson)
   \<and> psi_sor_vare_poisson cs_small prm_thin [()] no_exchange eps_thin rho_point zero_field 0 =
     Inr (solved_thin 1 omega_small_vare)
   \<and> eps_thin () 21 = epsilon prm_thin \<and> eps_thin () 22 = epsilon prm_thin
   \<and> iteration (solved_thin (omega_poisson (sor_radius cs_small) 0 0 1) omega_small_poisson)
       < maxits prm_thin
   \<and> iteration (solved_thin 1 omega_small_vare) < maxits prm_thin
   \<and> snd (rnorm (solved_thin 1 omega_small_vare)) < abstol prm_thin
   \<and> abstol prm_thin <
       \<bar>psis (solved_thin (omega_poisson (sor_radius cs_small) 0 0 1) omega_small_poisson) () 22
         - psis (solved_thin 1 omega_small_vare) () 22\<bar>
   \<and> abstol prm_thin <
       \<bar>(psis (solved_thin (omega_poisson (sor_radius cs_small) 0 0 1) omega_small_poisson) () 22
          - psis (solved_thin (omega_poisson (sor_radius cs_small) 0 0 1) omega_small_poisson) () 21)
         - (psis (solved_thin 1 omega_small_vare) () 22
            - psis (solved_thin 1 omega_small_vare) () 21)\<bar>"
proof -
  let ?u = "solved_thin (omega_poisson (sor_radius cs_small) 0 0 1) omega_small_poisson"
  let ?v = "solved_thin 1 omega_small_vare"
  have i: "iteration ?u < maxits prm_thin" "iteration ?v < maxits prm_thin"
    "snd (rnorm ?v) < abstol prm_thin"
    by (simp_all add: solved_thin_def)
  have e: "eps_thin () 21 = epsilon prm_thin" "eps_thin () 22 = epsilon prm_thin"
    by (simp_all add: eps_thin_def)
  have s: "psis ?u () 21 = psis ?v () 21" by (simp add: solved_thin_def psi_thin_2_def)
  have d: "abstol prm_thin < \<bar>psis ?u () 22 - psis ?v () 22\<bar>"
    using thin_difference by simp
  then have d': "abstol prm_thin <
      \<bar>(psis ?u () 22 - psis ?u () 21) - (psis ?v () 22 - psis ?v () 21)\<bar>"
    by (simp add: s)
  from psi_sor_poisson_thin psi_sor_vare_poisson_thin e i d d' show ?thesis by blast
qed

text \<open>
  C7, amended: with a callback that returns the uniform permittivity at every site, the
  scheme of \<open>psi_sor_vare_poisson\<close> collapses to that of \<open>psi_sor_poisson\<close>: the operator
  value is the permittivity times the 6-point Laplacian, and the residual at a site, the
  relaxation of a site, a whole pass with the same relaxation parameter, the initial
  norm and the initial state are those of the uniform solver.
\<close>

theorem constant_coefficient_collapse:
  "(\<forall>p index. fepsilon p index = epsilon prm) \<longrightarrow>
     depsi_vare cs (fepsilon p) psi index = epsilon prm * dpsi_stencil cs psi index
   \<and> residual_vare cs prm (fepsilon p) rho psi index = residual_poisson cs prm rho psi index
   \<and> vare_site cs prm (fepsilon p) rho om st index = sor_site cs prm rho om st index
   \<and> vare_sweep cs prm (fepsilon p) rho om pass st = sor_pass cs prm rho om pass st
   \<and> rnorm_local0_vare cs prm (fepsilon p) rho psi = rnorm_local0_poisson cs prm rho psi
   \<and> initial_state_vare cs prm fepsilon rho_elec psi_init
       = initial_state_poisson cs prm rho_elec psi_init"
proof
  assume a: "\<forall>p index. fepsilon p index = epsilon prm"
  then have c: "\<And>i. fepsilon p i = epsilon prm" and c': "\<And>p i. fepsilon p i = epsilon prm"
    by simp_all
  show "depsi_vare cs (fepsilon p) psi index = epsilon prm * dpsi_stencil cs psi index
   \<and> residual_vare cs prm (fepsilon p) rho psi index = residual_poisson cs prm rho psi index
   \<and> vare_site cs prm (fepsilon p) rho om st index = sor_site cs prm rho om st index
   \<and> vare_sweep cs prm (fepsilon p) rho om pass st = sor_pass cs prm rho om pass st
   \<and> rnorm_local0_vare cs prm (fepsilon p) rho psi = rnorm_local0_poisson cs prm rho psi
   \<and> initial_state_vare cs prm fepsilon rho_elec psi_init
       = initial_state_poisson cs prm rho_elec psi_init"
    using depsi_vare_constant [of "fepsilon p" "epsilon prm" cs psi index, OF c]
      residual_vare_constant [of "fepsilon p" prm cs rho psi index, OF c]
      vare_site_constant [of "fepsilon p" prm cs rho om st index, OF c]
      vare_sweep_constant [of "fepsilon p" prm cs rho om pass st, OF c]
      rnorm_local0_constant [of "fepsilon p" prm cs rho psi, OF c]
      initial_state_constant [of fepsilon prm cs rho_elec psi_init, OF c']
    by simp
qed

theorem constant_coefficient_collapse_witness:
  "(\<forall>p index. eps_thin p index = epsilon prm_thin)
   \<and> vare_sweep cs_small prm_thin (eps_thin ()) (rho_point ()) 1 0 (zero_field (), 0)
       = (psi_thin_1, 1)
   \<and> rnorm_local0_vare cs_small prm_thin (eps_thin ()) (rho_point ()) (zero_field ()) = 1
   \<and> depsi_vare cs_small (eps_thin ()) psi_thin_1 22 = 1 / 6"
proof -
  have c: "\<forall>p index. eps_thin p index = epsilon prm_thin" by (simp add: eps_thin_def)
  note t = constant_coefficient_collapse
    [where fepsilon = eps_thin and prm = prm_thin and cs = cs_small and p = "()"
      and rho = "rho_point ()" and om = 1 and pass = 0 and st = "(zero_field (), 0)"
      and psi = "zero_field ()"]
  note t' = constant_coefficient_collapse
    [where fepsilon = eps_thin and prm = prm_thin and cs = cs_small and p = "()"
      and psi = psi_thin_1 and index = 22]
  from t c have 1: "vare_sweep cs_small prm_thin (eps_thin ()) (rho_point ()) 1 0
      (zero_field (), 0) = (psi_thin_1, 1)"
    using sor_pass_thin_0 [of "()"] by (simp add: zero_field_eq)
  from t c have 2: "rnorm_local0_vare cs_small prm_thin (eps_thin ()) (rho_point ())
      (zero_field ()) = 1"
    using rnorm_local0_thin [of "()"] by (simp add: zero_field_eq)
  from t' c have 3: "depsi_vare cs_small (eps_thin ()) psi_thin_1 22 = 1 / 6"
    by (simp add: dpsi_stencil_def strides_small addr_rank0_def psi_thin_1_def)
  from c 1 2 3 show ?thesis by blast
qed

lemma mixed_radix_bound:
  fixes b c ny nz :: int
  assumes "0 \<le> b" "b < ny" "0 \<le> c" "c < nz"
  shows "0 \<le> nz * b + c" and "nz * b + c < ny * nz"
proof -
  have nz: "0 < nz" using assms by simp
  show "0 \<le> nz * b + c" using assms nz by simp
  have "b + 1 \<le> ny" using assms by simp
  then have "nz * (b + 1) \<le> nz * ny" using nz by (intro mult_left_mono) simp_all
  then show "nz * b + c < ny * nz" using assms by (simp add: algebra_simps)
qed

lemma storage_offsets:
  assumes "(i, j, k) \<in> storage cs"
  shows "0 \<le> nhalo cs + i - 1" "nhalo cs + i - 1 < nall cs X"
    "0 \<le> nhalo cs + j - 1" "nhalo cs + j - 1 < nall cs Y"
    "0 \<le> nhalo cs + k - 1" "nhalo cs + k - 1 < nall cs Z"
  using assms by (auto simp: storage_def nall_def)

lemma cs_index_to_ijk_inverse:
  assumes s: "(i, j, k) \<in> storage cs"
  shows "cs_index_to_ijk cs (cs_index cs i j k) = (i, j, k)"
    and "0 \<le> cs_index cs i j k" and "cs_index cs i j k < cs_nsites cs"
proof -
  define a b c where "a = nhalo cs + i - 1" and "b = nhalo cs + j - 1" and "c = nhalo cs + k - 1"
  define ny nz where "ny = nall cs Y" and "nz = nall cs Z"
  note o = storage_offsets [OF s, folded a_def b_def c_def ny_def nz_def]
  have nz: "0 < nz" and ny: "0 < ny" using o by simp_all
  note m = mixed_radix_bound [OF o(3,4,5,6)]
  have idx: "cs_index cs i j k = nz * b + c + (ny * nz) * a"
    by (simp add: cs_index_def cs_strides_def a_def b_def c_def ny_def nz_def algebra_simps)
  have d1: "(nz * b + c + (ny * nz) * a) div (ny * nz) = a"
    using m ny nz by (simp add: div_pos_pos_trivial)
  have m1: "(nz * b + c + (ny * nz) * a) mod (ny * nz) = nz * b + c"
    using m by (simp add: mod_pos_pos_trivial)
  have d2: "(nz * b + c) div nz = b"
    using o nz by (simp add: div_pos_pos_trivial add.commute [of "nz * b"])
  have e: "nz * b + c + (ny * nz) * a = c + nz * (b + ny * a)" by (simp add: algebra_simps)
  have "(c + nz * (b + ny * a)) mod nz = c mod nz" by (rule mod_mult_self2)
  also have "\<dots> = c" using o by (simp add: mod_pos_pos_trivial)
  finally have m2: "(nz * b + c + (ny * nz) * a) mod nz = c" unfolding e .
  show "cs_index_to_ijk cs (cs_index cs i j k) = (i, j, k)"
    unfolding idx cs_index_to_ijk_def cs_strides_def
    using d1 m1 d2 m2
    by (simp add: ny_def [symmetric] nz_def [symmetric] a_def b_def c_def)
  show "0 \<le> cs_index cs i j k"
    unfolding idx using m o ny nz by simp
  have "a + 1 \<le> nall cs X" using o by simp
  then have "(ny * nz) * (a + 1) \<le> (ny * nz) * nall cs X"
    using ny nz by (intro mult_left_mono) simp_all
  then show "cs_index cs i j k < cs_nsites cs"
    unfolding idx cs_nsites_def using m by (simp add: ny_def nz_def algebra_simps)
qed

lemma site_index_inverse:
  assumes "s \<in> storage cs"
  shows "cs_index_to_ijk cs (site_index cs s) = s"
    and "0 \<le> site_index cs s" and "site_index cs s < cs_nsites cs"
  using assms cs_index_to_ijk_inverse [of "fst s" "fst (snd s)" "snd (snd s)" cs]
  by (cases s; simp add: site_index_def)+

lemma component_with_component [simp]:
  "component a (with_component a v s) = v"
  "with_component a (component a s) s = s"
  "with_component a v (with_component a u s) = with_component a v s"
  by (cases a; cases s; simp)+

lemma halo_axis_at_site:
  assumes "s \<in> storage cs"
  shows "halo_axis cs w a f p (site_index cs s) =
     (if \<not> in_slab cs w a s then f p (site_index cs s)
      else if 1 - w \<le> component a s \<and> component a s \<le> 0 then
        (case cs_cart_neighb cs p BACKWARD a of
           None \<Rightarrow> f p (site_index cs s)
         | Some q \<Rightarrow> f q (site_index cs (with_component a (component a s + nlocal cs a) s)))
      else if nlocal cs a + 1 \<le> component a s \<and> component a s \<le> nlocal cs a + w then
        (case cs_cart_neighb cs p FORWARD a of
           None \<Rightarrow> f p (site_index cs s)
         | Some q \<Rightarrow> f q (site_index cs (with_component a (component a s - nlocal cs a) s)))
      else f p (site_index cs s))"
proof -
  note i = site_index_inverse [OF assms]
  show ?thesis unfolding halo_axis_def Let_def i(1) using i(2,3) by simp
qed

lemma halo_axis_interior_coordinate:
  assumes "s \<in> storage cs" "1 \<le> component a s" "component a s \<le> nlocal cs a" "0 \<le> w"
  shows "halo_axis cs w a f p (site_index cs s) = f p (site_index cs s)"
  using assms by (simp add: halo_axis_at_site)

lemma halo_axis_source:
  assumes "s \<in> storage cs" "in_slab cs w a s"
    and "1 - w \<le> component a s" "component a s \<le> nlocal cs a + w"
    and "source_axis cs a p (component a s) = Some (q, c')" and "0 \<le> nlocal cs a"
  shows "halo_axis cs w a f p (site_index cs s) = f q (site_index cs (with_component a c' s))"
proof -
  consider "component a s < 1" | "nlocal cs a < component a s"
    | "1 \<le> component a s" "component a s \<le> nlocal cs a" by linarith
  then show ?thesis
  proof cases
    case 1
    with assms show ?thesis
      by (auto simp: halo_axis_at_site source_axis_def split: option.splits)
  next
    case 2
    with assms show ?thesis
      by (auto simp: halo_axis_at_site source_axis_def split: option.splits)
  next
    case 3
    with assms show ?thesis
      by (auto simp: halo_axis_at_site source_axis_def)
  qed
qed

lemma source_axis_interior:
  assumes "source_axis cs a p c = Some (q, c')" "1 - w \<le> c" "c \<le> nlocal cs a + w"
    and "w \<le> nlocal cs a" "0 \<le> w"
  shows "1 \<le> c'" "c' \<le> nlocal cs a"
  using assms by (auto simp: source_axis_def split: if_splits)

lemma cs_cart_neighb_other:
  assumes "cs_cart_neighb cs p d a = Some q"
  shows "q = with_component a (component a q) p"
  using assms by (auto simp: cs_cart_neighb_def Let_def split: if_splits)

lemma cs_cart_neighb_range:
  assumes "cs_cart_neighb cs p d a = Some q" "0 < cartsz cs a"
  shows "0 \<le> component a q" "component a q < cartsz cs a"
  using assms by (auto simp: cs_cart_neighb_def Let_def split: if_splits)

lemma source_axis_proc:
  assumes "source_axis cs a p c = Some (q, c')"
  shows "q = with_component a (component a q) p"
    and "0 \<le> component a p \<Longrightarrow> component a p < cartsz cs a
         \<Longrightarrow> 0 \<le> component a q \<and> component a q < cartsz cs a"
proof -
  from assms consider "q = p" | d where "cs_cart_neighb cs p d a = Some q"
    by (auto simp: source_axis_def split: if_splits)
  then show "q = with_component a (component a q) p"
    using cs_cart_neighb_other by cases auto
  assume g: "0 \<le> component a p" "component a p < cartsz cs a"
  from assms consider "q = p" | d where "cs_cart_neighb cs p d a = Some q"
    by (auto simp: source_axis_def split: if_splits)
  then show "0 \<le> component a q \<and> component a q < cartsz cs a"
    using cs_cart_neighb_range g by cases auto
qed

lemma in_grid_with_component:
  assumes "in_grid cs p" "0 \<le> v" "v < cartsz cs a"
  shows "in_grid cs (with_component a v p)"
  using assms by (cases a; cases p) (simp_all add: in_grid_def)

lemma in_grid_component:
  assumes "in_grid cs p"
  shows "0 \<le> component a p" "component a p < cartsz cs a"
  using assms by (cases a; cases p; simp add: in_grid_def)+

lemma source_axis_in_grid:
  assumes "source_axis cs a p c = Some (q, c')" "in_grid cs p"
  shows "in_grid cs q"
proof -
  from source_axis_proc(2) [OF assms(1)] in_grid_component [OF assms(2), of a]
  have "0 \<le> component a q \<and> component a q < cartsz cs a" by simp
  with in_grid_with_component [OF assms(2), of "component a q" a]
    source_axis_proc(1) [OF assms(1)]
  show ?thesis by simp
qed

lemma field_halo_source:
  assumes g: "halo_geometry cs w" and s: "s \<in> comm_region cs w"
    and src: "halo_source cs p s = Some (q, s')"
  shows "field_halo cs w f p (site_index cs s) = f q (site_index cs s')"
    and "s' \<in> interior cs"
proof -
  obtain i j k where sv: "s = (i, j, k)" by (cases s)
  from src obtain pz k' py j' i' where
    z: "source_axis cs Z p k = Some (pz, k')"
    and y: "source_axis cs Y pz j = Some (py, j')"
    and x: "source_axis cs X py i = Some (q, i')"
    and s': "s' = (i', j', k')"
    by (auto simp: halo_source_def sv split: option.splits)
  from g have w: "0 \<le> w" "w \<le> nhalo cs" "w \<le> nlocal cs X" "w \<le> nlocal cs Y"
    "w \<le> nlocal cs Z" "0 \<le> nlocal cs X" "0 \<le> nlocal cs Y" "0 \<le> nlocal cs Z"
    by (simp_all add: halo_geometry_def)
  from s have r: "1 - w \<le> i" "i \<le> nlocal cs X + w" "1 - w \<le> j" "j \<le> nlocal cs Y + w"
    "1 - w \<le> k" "k \<le> nlocal cs Z + w"
    by (simp_all add: comm_region_def sv)
  note kz = source_axis_interior [OF z r(5,6) w(5,1)]
  note jy = source_axis_interior [OF y r(3,4) w(4,1)]
  note ix = source_axis_interior [OF x r(1,2) w(3,1)]
  show "s' \<in> interior cs" using kz jy ix by (simp add: s' interior_def)
  have st0: "(i, j, k) \<in> storage cs" and st1: "(i, j, k') \<in> storage cs"
    and st2: "(i, j', k') \<in> storage cs"
    using r w kz jy by (auto simp: storage_def)
  let ?f1 = "halo_axis cs w X f"
  let ?f2 = "halo_axis cs w Y ?f1"
  have "field_halo cs w f p (site_index cs s) = halo_axis cs w Z ?f2 p (site_index cs (i, j, k))"
    by (simp add: field_halo_def sv)
  also have "\<dots> = ?f2 pz (site_index cs (with_component Z k' (i, j, k)))"
    by (rule halo_axis_source [OF st0]) (use r z w in \<open>simp_all add: in_slab_def\<close>)
  also have "\<dots> = ?f2 pz (site_index cs (i, j, k'))" by simp
  also have "\<dots> = ?f1 py (site_index cs (with_component Y j' (i, j, k')))"
    by (rule halo_axis_source [OF st1]) (use r y w kz in \<open>simp_all add: in_slab_def\<close>)
  also have "\<dots> = ?f1 py (site_index cs (i, j', k'))" by simp
  also have "\<dots> = f q (site_index cs (with_component X i' (i, j', k')))"
    by (rule halo_axis_source [OF st2]) (use r x w kz jy in \<open>simp_all add: in_slab_def\<close>)
  finally show "field_halo cs w f p (site_index cs s) = f q (site_index cs s')"
    by (simp add: s')
qed

lemma field_halo_interior:
  assumes "halo_geometry cs w" and "s \<in> interior cs"
  shows "field_halo cs w f p (site_index cs s) = f p (site_index cs s)"
proof -
  obtain i j k where sv: "s = (i, j, k)" by (cases s)
  from assms have st: "s \<in> storage cs" and w: "0 \<le> w"
    by (auto simp: interior_def storage_def halo_geometry_def)
  from assms(2) have c: "1 \<le> component a s" "component a s \<le> nlocal cs a" for a
    by (cases a; simp add: sv interior_def)+
  show ?thesis
    unfolding field_halo_def
    by (simp add: halo_axis_interior_coordinate [OF st c w])
qed

lemma halo_source_in_grid:
  assumes "halo_source cs p s = Some (q, s')" "in_grid cs p"
  shows "in_grid cs q"
proof -
  obtain i j k where sv: "s = (i, j, k)" by (cases s)
  from assms(1) obtain pz k' py j' i' where
    z: "source_axis cs Z p k = Some (pz, k')"
    and y: "source_axis cs Y pz j = Some (py, j')"
    and x: "source_axis cs X py i = Some (q, i')"
    by (auto simp: halo_source_def sv split: option.splits)
  from source_axis_in_grid [OF x source_axis_in_grid [OF y source_axis_in_grid [OF z assms(2)]]]
  show ?thesis .
qed

lemma source_axis_id:
  assumes "1 \<le> c" "c \<le> nlocal cs a"
  shows "source_axis cs a p c = Some (p, c)"
  using assms by (simp add: source_axis_def)

lemma source_axis_low_periodic:
  assumes "periodic cs a" "component a p = 0" "0 < cartsz cs a"
  shows "source_axis cs a p 0 = Some (with_component a (cartsz cs a - 1) p, nlocal cs a)"
proof -
  have "(- 1) mod cartsz cs a = cartsz cs a - 1"
    using assms(3) by (simp add: zmod_minus1)
  then show ?thesis
    using assms by (simp add: source_axis_def cs_cart_neighb_def)
qed

lemma source_axis_high_periodic:
  assumes "periodic cs a" "component a p = cartsz cs a - 1" "0 \<le> nlocal cs a"
  shows "source_axis cs a p (nlocal cs a + 1) = Some (with_component a 0 p, 1)"
  using assms by (simp add: source_axis_def cs_cart_neighb_def)

lemma halo_source_one_axis:
  assumes "with_component a 1 s \<in> interior cs"
    and "source_axis cs a p (component a s) = Some (q, c')"
  shows "halo_source cs p s = Some (q, with_component a c' s)"
proof -
  obtain i j k where sv: "s = (i, j, k)" by (cases s)
  show ?thesis
  proof (cases a)
    case X
    with assms show ?thesis
      by (simp add: sv halo_source_def interior_def source_axis_id)
  next
    case Y
    with assms have "1 \<le> i" "i \<le> nlocal cs X" "1 \<le> k" "k \<le> nlocal cs Z"
      and y: "source_axis cs Y p j = Some (q, c')"
      by (simp_all add: sv interior_def)
    then show ?thesis
      using Y by (simp add: sv halo_source_def source_axis_id)
  next
    case Z
    with assms have "1 \<le> i" "i \<le> nlocal cs X" "1 \<le> j" "j \<le> nlocal cs Y"
      and y: "source_axis cs Z p k = Some (q, c')"
      by (simp_all add: sv interior_def)
    then show ?thesis
      using Z by (simp add: sv halo_source_def source_axis_id)
  qed
qed

lemma comm_region_one_axis:
  assumes "with_component a 1 s \<in> interior cs" "1 - w \<le> component a s"
    "component a s \<le> nlocal cs a + w" "0 \<le> w"
  shows "s \<in> comm_region cs w"
  using assms by (cases a; cases s) (auto simp: interior_def comm_region_def)

lemma global_index_periodic:
  assumes "exact_decomposition cs"
  shows "global_index cs a (with_component a (cartsz cs a - 1) p) (nlocal cs a) = ntotal cs a - 1"
    and "global_index cs a (with_component a 0 p) 1 = 0"
  using assms
  by (cases a; simp add: global_index_def noffset_def exact_decomposition_def algebra_simps)+

text \<open>
  C9. After a halo exchange of communicated width \<open>w\<close>, the value at every site within
  that width of the interior equals the value the field had, and still has, at an
  interior site of the process that owns it: the site mirrored by the local extent on
  the neighbour along each axis on which the site is a ghost, where a neighbour exists
  or the axis is periodic. On a periodic axis the ghost below the first site of the
  first process holds the value at the global index \<open>extent - 1\<close> and the ghost above
  the last site of the last process the value at the global index 0, counted from 0.
\<close>

theorem halo_exchange_correct:
  "(halo_geometry cs w \<and> in_grid cs p \<and> s \<in> comm_region cs w
      \<and> halo_source cs p s = Some (q, s') \<longrightarrow>
      field_halo cs w f p (site_index cs s) = f q (site_index cs s')
      \<and> s' \<in> interior cs \<and> in_grid cs q
      \<and> field_halo cs w f q (site_index cs s') = f q (site_index cs s'))
   \<and> (halo_geometry cs w \<and> 1 \<le> w \<and> exact_decomposition cs \<and> in_grid cs p \<and> periodic cs a
      \<and> with_component a 1 s \<in> interior cs \<longrightarrow>
      (component a p = 0 \<and> component a s = 0 \<longrightarrow>
         field_halo cs w f p (site_index cs s) =
           f (with_component a (cartsz cs a - 1) p)
             (site_index cs (with_component a (nlocal cs a) s))
         \<and> global_index cs a (with_component a (cartsz cs a - 1) p) (nlocal cs a)
             = ntotal cs a - 1)
      \<and> (component a p = cartsz cs a - 1 \<and> component a s = nlocal cs a + 1 \<longrightarrow>
         field_halo cs w f p (site_index cs s) =
           f (with_component a 0 p) (site_index cs (with_component a 1 s))
         \<and> global_index cs a (with_component a 0 p) 1 = 0))"
proof (intro conjI impI)
  assume a: "halo_geometry cs w \<and> in_grid cs p \<and> s \<in> comm_region cs w
      \<and> halo_source cs p s = Some (q, s')"
  then have g: "halo_geometry cs w" and p: "in_grid cs p" and s: "s \<in> comm_region cs w"
    and src: "halo_source cs p s = Some (q, s')" by simp_all
  show "field_halo cs w f p (site_index cs s) = f q (site_index cs s')"
    by (rule field_halo_source(1) [OF g s src])
  show i: "s' \<in> interior cs" by (rule field_halo_source(2) [OF g s src])
  show "in_grid cs q" by (rule halo_source_in_grid [OF src p])
  show "field_halo cs w f q (site_index cs s') = f q (site_index cs s')"
    by (rule field_halo_interior [OF g i])
next
  assume a: "halo_geometry cs w \<and> 1 \<le> w \<and> exact_decomposition cs \<and> in_grid cs p
      \<and> periodic cs a \<and> with_component a 1 s \<in> interior cs"
    and b: "component a p = 0 \<and> component a s = 0"
  from a have g: "halo_geometry cs w" and w: "1 \<le> w" and e: "exact_decomposition cs"
    and p: "in_grid cs p" and per: "periodic cs a" and o: "with_component a 1 s \<in> interior cs"
    by simp_all
  have c: "0 < cartsz cs a" using in_grid_component [OF p, of a] by simp
  have n: "0 \<le> nlocal cs a" using g by (cases a) (simp_all add: halo_geometry_def)
  have "source_axis cs a p (component a s)
      = Some (with_component a (cartsz cs a - 1) p, nlocal cs a)"
    using source_axis_low_periodic [OF per _ c] b by simp
  from halo_source_one_axis [OF o this]
  have src: "halo_source cs p s
      = Some (with_component a (cartsz cs a - 1) p, with_component a (nlocal cs a) s)" .
  have r: "s \<in> comm_region cs w"
    by (rule comm_region_one_axis [OF o]) (use b w n in simp_all)
  show "field_halo cs w f p (site_index cs s) =
           f (with_component a (cartsz cs a - 1) p)
             (site_index cs (with_component a (nlocal cs a) s))"
    by (rule field_halo_source(1) [OF g r src])
  show "global_index cs a (with_component a (cartsz cs a - 1) p) (nlocal cs a)
      = ntotal cs a - 1"
    by (rule global_index_periodic(1) [OF e])
next
  assume a: "halo_geometry cs w \<and> 1 \<le> w \<and> exact_decomposition cs \<and> in_grid cs p
      \<and> periodic cs a \<and> with_component a 1 s \<in> interior cs"
    and b: "component a p = cartsz cs a - 1 \<and> component a s = nlocal cs a + 1"
  from a have g: "halo_geometry cs w" and w: "1 \<le> w" and e: "exact_decomposition cs"
    and p: "in_grid cs p" and per: "periodic cs a" and o: "with_component a 1 s \<in> interior cs"
    by simp_all
  have n: "0 \<le> nlocal cs a" using g by (cases a) (simp_all add: halo_geometry_def)
  have "source_axis cs a p (component a s) = Some (with_component a 0 p, 1)"
    using source_axis_high_periodic [OF per _ n] b by simp
  from halo_source_one_axis [OF o this]
  have src: "halo_source cs p s = Some (with_component a 0 p, with_component a 1 s)" .
  have r: "s \<in> comm_region cs w"
    by (rule comm_region_one_axis [OF o]) (use b w n in simp_all)
  show "field_halo cs w f p (site_index cs s) =
           f (with_component a 0 p) (site_index cs (with_component a 1 s))"
    by (rule field_halo_source(1) [OF g r src])
  show "global_index cs a (with_component a 0 p) 1 = 0"
    by (rule global_index_periodic(2) [OF e])
qed

lemma pair_geometry [simp]:
  "halo_geometry cs_pair 1" "exact_decomposition cs_pair" "in_grid cs_pair (0, 0, 0)"
  "in_grid cs_pair (1, 0, 0)"
  by (simp_all add: halo_geometry_def exact_decomposition_def in_grid_def)

lemma site_index_pair: "site_index cs_pair (i, j, k) = 16 * i + 4 * j + k"
  by (simp add: site_index_def cs_index_def cs_strides_def nall_def)

theorem halo_exchange_correct_witness:
  "halo_geometry cs_pair 1 \<and> in_grid cs_pair (0, 0, 0) \<and> (0, 0, 0) \<in> comm_region cs_pair 1
   \<and> halo_source cs_pair (0, 0, 0) (0, 0, 0) = Some ((1, 0, 0), (2, 2, 2))
   \<and> (1::int) \<le> 1 \<and> exact_decomposition cs_pair \<and> periodic cs_pair X
   \<and> with_component X 1 (0, 1, 1) \<in> interior cs_pair
   \<and> component X (0, 0, 0) = 0 \<and> component X (0, 1, 1) = 0
   \<and> in_grid cs_pair (1, 0, 0) \<and> with_component X 1 (3, 2, 1) \<in> interior cs_pair
   \<and> component X (1, 0, 0) = cartsz cs_pair X - 1 \<and> component X (3, 2, 1) = nlocal cs_pair X + 1
   \<and> field_halo cs_pair 1 rank_field (0, 0, 0) (site_index cs_pair (0, 0, 0)) = 142
   \<and> field_halo cs_pair 1 rank_field (0, 0, 0) (site_index cs_pair (0, 1, 1)) = 137
   \<and> global_index cs_pair X (1, 0, 0) 2 = 3
   \<and> field_halo cs_pair 1 rank_field (1, 0, 0) (site_index cs_pair (3, 2, 1)) = 25
   \<and> global_index cs_pair X (0, 0, 0) 1 = 0"
proof -
  have h: "halo_source cs_pair (0, 0, 0) (0, 0, 0) = Some ((1, 0, 0), (2, 2, 2))"
    by (simp add: halo_source_def source_axis_def cs_cart_neighb_def)
  have c: "(0, 0, 0) \<in> comm_region cs_pair 1" by (simp add: comm_region_def)
  have i: "with_component X 1 (0, 1, 1) \<in> interior cs_pair"
    "with_component X 1 (3, 2, 1) \<in> interior cs_pair"
    by (simp_all add: interior_def)
  have k: "component X (0, 0, 0) = 0" "component X (0, 1, 1) = 0"
    "component X (1, 0, 0) = cartsz cs_pair X - 1" "component X (3, 2, 1) = nlocal cs_pair X + 1"
    by simp_all
  note t1 = halo_exchange_correct
    [where cs = cs_pair and w = 1 and p = "(0, 0, 0)" and s = "(0, 0, 0)" and q = "(1, 0, 0)"
      and s' = "(2, 2, 2)" and f = rank_field]
  note t2 = halo_exchange_correct
    [where cs = cs_pair and w = 1 and p = "(0, 0, 0)" and s = "(0, 1, 1)" and a = X
      and f = rank_field]
  note t3 = halo_exchange_correct
    [where cs = cs_pair and w = 1 and p = "(1, 0, 0)" and s = "(3, 2, 1)" and a = X
      and f = rank_field]
  from t1 h c have "field_halo cs_pair 1 rank_field (0, 0, 0) (site_index cs_pair (0, 0, 0))
      = rank_field (1, 0, 0) (site_index cs_pair (2, 2, 2))" by simp
  then have 1: "field_halo cs_pair 1 rank_field (0, 0, 0) (site_index cs_pair (0, 0, 0)) = 142"
    by (simp add: rank_field_def site_index_pair)
  from t2 i k have "field_halo cs_pair 1 rank_field (0, 0, 0) (site_index cs_pair (0, 1, 1)) =
      rank_field (with_component X (cartsz cs_pair X - 1) (0, 0, 0))
        (site_index cs_pair (with_component X (nlocal cs_pair X) (0, 1, 1)))
      \<and> global_index cs_pair X (with_component X (cartsz cs_pair X - 1) (0, 0, 0))
           (nlocal cs_pair X) = ntotal cs_pair X - 1" by simp
  then have 2: "field_halo cs_pair 1 rank_field (0, 0, 0) (site_index cs_pair (0, 1, 1)) = 137"
    and 3: "global_index cs_pair X (1, 0, 0) 2 = 3"
    by (simp_all add: rank_field_def site_index_pair)
  from t3 i k have "field_halo cs_pair 1 rank_field (1, 0, 0) (site_index cs_pair (3, 2, 1)) =
      rank_field (with_component X 0 (1, 0, 0))
        (site_index cs_pair (with_component X 1 (3, 2, 1)))
      \<and> global_index cs_pair X (with_component X 0 (1, 0, 0)) 1 = 0" by simp
  then have 4: "field_halo cs_pair 1 rank_field (1, 0, 0) (site_index cs_pair (3, 2, 1)) = 25"
    and 5: "global_index cs_pair X (0, 0, 0) 1 = 0"
    by (simp_all add: rank_field_def site_index_pair)
  from h c i k 1 2 3 4 5 show ?thesis by simp
qed

text \<open>The norm accumulated over one sweep\<close>

lemma poisson_iteration_accumulates:
  assumes it: "poisson_iteration cs prm procs halo rho_elec its n st = Inr r"
    and h: "1 \<le> nhalo cs"
  shows "\<exists>st1. poisson_pass cs prm halo rho_elec n 0
            (st\<lparr>rnorm_local := (\<lambda>p. (fst (rnorm_local st p), 0))\<rparr>) = Inr st1
     \<and> (\<forall>p. snd (rnorm_local (snd r) p) =
           (\<Sum>s\<leftarrow>pass_sites cs 0.
              \<bar>residual_poisson cs prm (rho_elec p) (psis st p) (site_index cs s)\<bar>)
         + (\<Sum>s\<leftarrow>pass_sites cs 1.
              \<bar>residual_poisson cs prm (rho_elec p) (psis st1 p) (site_index cs s)\<bar>))"
proof -
  from poisson_iteration_local [OF it] obtain st1 where
    1: "poisson_pass cs prm halo rho_elec n 0
            (st\<lparr>rnorm_local := (\<lambda>p. (fst (rnorm_local st p), 0))\<rparr>) = Inr st1"
    and 2: "rnorm_local (snd r) =
         (\<lambda>p. (fst (rnorm_local st p),
               snd (sor_pass cs prm (rho_elec p) (omega st1) 1
                     (psis st1 p,
                      snd (sor_pass cs prm (rho_elec p) (omega st) 0 (psis st p, 0))))))"
    by blast
  have "snd (rnorm_local (snd r) p) =
           (\<Sum>s\<leftarrow>pass_sites cs 0.
              \<bar>residual_poisson cs prm (rho_elec p) (psis st p) (site_index cs s)\<bar>)
         + (\<Sum>s\<leftarrow>pass_sites cs 1.
              \<bar>residual_poisson cs prm (rho_elec p) (psis st1 p) (site_index cs s)\<bar>)" for p
    unfolding 2 by (simp add: sor_pass_parallel [OF _ h])
  with 1 show ?thesis by blast
qed

lemma vare_iteration_accumulates:
  assumes it: "vare_iteration cs prm procs halo fepsilon rho_elec its n st = Inr r"
    and h: "1 \<le> nhalo cs"
  shows "snd (rnorm_local (snd r) p) =
       (\<Sum>s\<leftarrow>pass_sites cs 0.
          \<bar>residual_vare cs prm (fepsilon p) (rho_elec p) (psis st p) (site_index cs s)\<bar>)
     + (\<Sum>s\<leftarrow>pass_sites cs 1.
          \<bar>residual_vare cs prm (fepsilon p) (rho_elec p)
             (psis (vare_pass cs prm halo fepsilon rho_elec 0
                (st\<lparr>rnorm_local := (\<lambda>p. (fst (rnorm_local st p), 0))\<rparr>)) p)
             (site_index cs s)\<bar>)"
  unfolding vare_iteration_Inr(2) [OF it] vare_two_passes_def
  by (simp add: vare_sweep_parallel [OF _ h])

lemma vare_iteration_fst_local:
  assumes "vare_iteration cs prm procs halo fepsilon rho_elec its n st = Inr r"
  shows "fst (rnorm_local (snd r) p) = fst (rnorm_local st p)"
  unfolding vare_iteration_Inr(2) [OF assms] vare_two_passes_def by simp

lemma snd_reduced: "snd (reduced procs st) = (\<Sum>p\<leftarrow>procs. snd (rnorm_local st p))"
  by (simp add: reduced_def)

text \<open>The norms a solve of \<open>psi_sor_vare_poisson\<close> ends with\<close>

lemma vare_norms_result:
  assumes "psi_sor_vare_poisson cs prm procs halo fepsilon rho_elec psi_init its = Inr res"
    and "0 < maxits prm"
  shows "fst (rnorm res)
       = (\<Sum>p\<leftarrow>procs. rnorm_local0_vare cs prm (fepsilon p) (rho_elec p) (psi_init p))"
    and "snd (rnorm res) = (\<Sum>p\<leftarrow>procs. snd (rnorm_local res p))"
proof -
  let ?R = "\<lambda>p. rnorm_local0_vare cs prm (fepsilon p) (rho_elec p) (psi_init p)"
  let ?I = "\<lambda>(n::int) (st :: 'a sor_state). 0 \<le> n \<and> (\<forall>p. fst (rnorm_local st p) = ?R p)
     \<and> (0 < n \<longrightarrow> rnorm st = reduced procs st)"
  let ?Q = "\<lambda>res :: 'a sor_state. 0 < maxits prm \<longrightarrow>
     rnorm res = reduced procs res \<and> (\<forall>p. fst (rnorm_local res p) = ?R p)"
  from assms(1) have run: "sor_loop (vare_iteration cs prm procs halo fepsilon rho_elec its)
      (maxits prm) 0 (initial_state_vare cs prm fepsilon rho_elec psi_init) = Inr res"
    by (simp add: psi_sor_vare_poisson_def split: if_splits)
  have "?Q res"
  proof (rule sor_loop_rule [OF run, where I = ?I and Q = ?Q])
    show "?I 0 (initial_state_vare cs prm fepsilon rho_elec psi_init)"
      by (simp add: initial_state_vare_def)
  next
    fix n and st :: "'a sor_state" and r
    assume I: "?I n st"
      and it: "vare_iteration cs prm procs halo fepsilon rho_elec its n st = Inr r"
    have loc: "\<forall>p. fst (rnorm_local (snd r) p) = ?R p"
      using vare_iteration_fst_local [OF it] I by simp
    with vare_iteration_Inr(4) [OF it] I
    show "if fst r then ?Q ((snd r)\<lparr>iteration := n\<rparr>) else ?I (n + 1) (snd r)"
      by simp
  next
    fix n and st :: "'a sor_state"
    assume "?I n st" and "\<not> n < maxits prm"
    then show "?Q (st\<lparr>iteration := n\<rparr>)" by auto
  qed
  with assms(2) have q: "rnorm res = reduced procs res" "\<forall>p. fst (rnorm_local res p) = ?R p"
    by blast+
  show "fst (rnorm res) = (\<Sum>p\<leftarrow>procs. ?R p)" by (simp add: q fst_reduced)
  show "snd (rnorm res) = (\<Sum>p\<leftarrow>procs. snd (rnorm_local res p))" by (simp add: q(1) snd_reduced)
qed

text \<open>The norm \<open>psi_sor_poisson\<close> holds when its iterations run out\<close>

lemma last_check_bounds:
  fixes N n :: int
  assumes "1 \<le> N"
  shows "0 \<le> 5 * ((N - 1) div 5)" "5 * ((N - 1) div 5) < N" "5 * ((N - 1) div 5) mod 5 = 0"
    and "5 * ((N - 1) div 5) < n \<Longrightarrow> n < N \<Longrightarrow> n mod 5 \<noteq> 0"
  using assms by presburger+

lemma poisson_exceeded_norm:
  assumes "psi_sor_poisson cs prm procs halo rho_elec psi_init its = Inr res"
    and "\<not> iteration res < maxits prm" and "1 \<le> maxits prm"
  shows "\<exists>st. sor_loop (poisson_iteration cs prm procs halo rho_elec its)
                 (5 * ((maxits prm - 1) div 5) + 1) 0
                 (initial_state_poisson cs prm rho_elec psi_init) = Inr st
     \<and> iteration st = 5 * ((maxits prm - 1) div 5) + 1
     \<and> snd (rnorm res) = (\<Sum>p\<leftarrow>procs. snd (rnorm_local st p))"
proof -
  let ?B = "poisson_iteration cs prm procs halo rho_elec its"
  let ?st0 = "initial_state_poisson cs prm rho_elec psi_init"
  define N where "N = maxits prm"
  define c where "c = 5 * ((N - 1) div 5)"
  note lc = last_check_bounds [of N, folded c_def]
  have N: "1 \<le> N" using assms(3) by (simp add: N_def)
  let ?P = "\<lambda>st :: 'a sor_state. \<exists>stk. sor_loop ?B (c + 1) 0 ?st0 = Inr stk
     \<and> iteration stk = c + 1
     \<and> snd (rnorm st) = (\<Sum>p\<leftarrow>procs. snd (rnorm_local stk p))"
  let ?I = "\<lambda>(n::int) (st :: 'a sor_state). 0 \<le> n
     \<and> (n \<le> c \<longrightarrow> sor_loop ?B (c + 1) n st = sor_loop ?B (c + 1) 0 ?st0)
     \<and> (c < n \<longrightarrow> ?P st)"
  let ?Q = "\<lambda>res :: 'a sor_state. \<not> iteration res < N \<longrightarrow> ?P res"
  from assms(1) have run: "sor_loop ?B N 0 ?st0 = Inr res"
    by (simp add: psi_sor_poisson_def N_def split: if_splits)
  have "?Q res"
  proof (rule sor_loop_rule [OF run, where I = ?I and Q = ?Q])
    show "?I 0 ?st0" using lc(1) [OF N] by simp
  next
    fix n and st :: "'a sor_state" and r
    assume I: "?I n st" and n: "n < N" and it: "?B n st = Inr r"
    show "if fst r then ?Q ((snd r)\<lparr>iteration := n\<rparr>) else ?I (n + 1) (snd r)"
    proof (cases "fst r")
      case True
      then show ?thesis using n by simp
    next
      case False
      have step: "sor_loop ?B (c + 1) n st = sor_loop ?B (c + 1) (n + 1) (snd r)" if "n \<le> c"
        using that it False by (subst sor_loop.simps) simp
      consider "n < c" | "n = c" | "c < n" by linarith
      then have "?I (n + 1) (snd r)"
      proof cases
        case 1
        then show ?thesis using I step by simp
      next
        case 2
        have "sor_loop ?B (c + 1) (c + 1) (snd r) = Inr ((snd r)\<lparr>iteration := c + 1\<rparr>)"
          by (subst sor_loop.simps) simp
        with I step 2
        have k: "sor_loop ?B (c + 1) 0 ?st0 = Inr ((snd r)\<lparr>iteration := c + 1\<rparr>)" by simp
        have "n mod 5 = 0" using 2 lc(3) [OF N] by simp
        with poisson_iteration_check(1) [OF it]
        have "snd (rnorm (snd r)) = (\<Sum>p\<leftarrow>procs. snd (rnorm_local (snd r) p))"
          by (simp add: snd_reduced)
        with k have "?P (snd r)" by simp
        then show ?thesis using I 2 by simp
      next
        case 3
        then have "n mod 5 \<noteq> 0" using lc(4) [OF N _ n] by simp
        with poisson_iteration_check(1) [OF it] have "rnorm (snd r) = rnorm st" by simp
        then show ?thesis using I 3 by simp
      qed
      with False show ?thesis by simp
    qed
  next
    fix n and st :: "'a sor_state"
    assume I: "?I n st" and "\<not> n < N"
    then have "c < n" using lc(2) [OF N] by simp
    with I show "?Q (st\<lparr>iteration := n\<rparr>)" by simp
  qed
  with assms(2) show ?thesis by (simp add: N_def c_def)
qed

lemma poisson_exceeded_norm_fresh:
  assumes "psi_sor_poisson cs prm procs halo rho_elec psi_init its = Inr res"
    and "\<not> iteration res < maxits prm" and "1 \<le> maxits prm"
    and "(maxits prm - 1) mod 5 = 0"
  shows "snd (rnorm res) = (\<Sum>p\<leftarrow>procs. snd (rnorm_local res p))"
proof -
  have e: "5 * ((maxits prm - 1) div 5) + 1 = maxits prm" using assms(4) by presburger
  from assms(1) have "sor_loop (poisson_iteration cs prm procs halo rho_elec its) (maxits prm) 0
      (initial_state_poisson cs prm rho_elec psi_init) = Inr res"
    by (simp add: psi_sor_poisson_def split: if_splits)
  with poisson_exceeded_norm [OF assms(1-3)] show ?thesis by (simp add: e)
qed

text \<open>Two sweeps on the small system with a point charge\<close>

lemma prm_two_simps [simp]:
  "epsilon prm_two = 1" "reltol prm_two = 1 / 10000000"
  "abstol prm_two = 1 / 1000000000" "maxits prm_two = 2" "beta prm_two = 1"
  "unit_charge prm_two = 1" "nfreq prm_two = 1"
  by (simp_all add: prm_two_def prm_small_def)

lemma residual_two_sites:
  "residual_poisson cs_small prm_two (rho_point p) psi index =
     psi (index + 16) + psi (index - 16) + psi (index + 4) + psi (index - 4)
      + psi (index + 1) + psi (index - 1) - 6 * psi index
     + (if index = 21 then 1 else 0)"
  by (simp add: residual_poisson_def dpsi_stencil_def strides_small addr_rank0_def
      rho_point_def)

lemma sor_site_two:
  "sor_site cs_small prm_two (rho_point p) om (psi, rn) index =
     (psi(index := psi index
            + om * residual_poisson cs_small prm_two (rho_point p) psi index / 6),
      rn + \<bar>residual_poisson cs_small prm_two (rho_point p) psi index\<bar>)"
  by (simp add: sor_site_def addr_rank0_def Let_def)

lemma rnorm_local0_two:
  "rnorm_local0_poisson cs_small prm_two (rho_point p) (\<lambda>i. 0) = 1"
  by (simp add: rnorm_local0_poisson_def all_sites_small site_index_small residual_two_sites)

lemma sor_pass_two_1:
  "sor_pass cs_small prm_two (rho_point p) 1 0 (\<lambda>i. 0, 0) = (psi_two_1, 1)"
  by (simp add: sor_pass_def pass_sites_small site_index_small sor_site_two residual_two_sites
      psi_two_1_def fun_eq_iff)

lemma sor_pass_two_2:
  "sor_pass cs_small prm_two (rho_point p) om1 1 (psi_two_1, 1) = (psi_two_2 om1, 3 / 2)"
  by (simp add: sor_pass_def pass_sites_small site_index_small sor_site_two residual_two_sites
      psi_two_1_def psi_two_2_def fun_eq_iff)

lemma sor_pass_two_3:
  "sor_pass cs_small prm_two (rho_point p) om2 0 (psi_two_2 om1, 0)
     = (psi_two_3 om1 om2, \<bar>om1 / 12\<bar> + 3 * \<bar>om1 / 18\<bar>)"
  by (simp add: sor_pass_def pass_sites_small site_index_small sor_site_two residual_two_sites
      psi_two_2_def psi_two_3_def fun_eq_iff)

lemma sor_pass_two_4:
  "sor_pass cs_small prm_two (rho_point p) om3 1 (psi_two_3 om1 om2, acc)
     = (psi_two_4 om1 om2 om3,
        acc + 3 * \<bar>residual_two om1 om2\<bar> + \<bar>3 * (om2 * (om1 / 18) / 6)\<bar>)"
  by (simp add: sor_pass_def pass_sites_small site_index_small sor_site_two residual_two_sites
      psi_two_3_def psi_two_4_def residual_two_def fun_eq_iff)

lemma omega_two_bounds:
  "1 < omega_two_1" "omega_two_1 < 2" "omega_denominator (sor_radius cs_small) 0 0 1 \<noteq> 0"
  "1 < omega_two_2" "omega_two_2 < 2"
  "omega_denominator (sor_radius cs_small) 0 1 omega_two_1 \<noteq> 0"
  "1 < omega_two_3" "omega_two_3 < 2"
  "omega_denominator (sor_radius cs_small) 1 0 omega_two_2 \<noteq> 0"
  "1 < omega_two_4" "omega_two_4 < 2"
  "omega_denominator (sor_radius cs_small) 1 1 omega_two_3 \<noteq> 0"
proof -
  note b = omega_poisson_bounds [OF radius_small]
  show 1: "1 < omega_two_1" "omega_two_1 < 2"
    and "omega_denominator (sor_radius cs_small) 0 0 1 \<noteq> 0"
    unfolding omega_two_1_def by (rule b; simp)+
  from 1 have l1: "1 \<le> omega_two_1" by simp
  show 2: "1 < omega_two_2" "omega_two_2 < 2"
    and "omega_denominator (sor_radius cs_small) 0 1 omega_two_1 \<noteq> 0"
    unfolding omega_two_2_def by (rule b [OF l1 1(2)])+
  from 2 have l2: "1 \<le> omega_two_2" by simp
  show 3: "1 < omega_two_3" "omega_two_3 < 2"
    and "omega_denominator (sor_radius cs_small) 1 0 omega_two_2 \<noteq> 0"
    unfolding omega_two_3_def by (rule b [OF l2 2(2)])+
  from 3 have l3: "1 \<le> omega_two_3" by simp
  show "1 < omega_two_4" "omega_two_4 < 2"
    and "omega_denominator (sor_radius cs_small) 1 1 omega_two_3 \<noteq> 0"
    unfolding omega_two_4_def by (rule b [OF l3 3(2)])+
qed

lemma initial_two:
  "initial_state_poisson cs_small prm_two rho_point zero_field =
     \<lparr>psis = (\<lambda>p i. 0), rnorm_local = (\<lambda>p. (1, 0)), rnorm = (0, 0), omega = 1,
      iteration = 0, printed = []\<rparr>"
  by (simp add: initial_state_poisson_def zero_field_eq rnorm_local0_two)

lemma poisson_iteration_two_0:
  "poisson_iteration cs_small prm_two [()] no_exchange rho_point 0 0
     (initial_state_poisson cs_small prm_two rho_point zero_field) =
   Inr (False, \<lparr>psis = (\<lambda>p. psi_two_2 omega_two_1), rnorm_local = (\<lambda>p. (1, 3 / 2)),
                  rnorm = (1, 3 / 2), omega = omega_two_2, iteration = 0, printed = []\<rparr>)"
  unfolding initial_two
  using omega_two_bounds(1-6)
  by (simp add: poisson_iteration_def poisson_pass_def sor_pass_all_def Let_def
      sor_pass_two_1 sor_pass_two_2 no_exchange_def allreduce_rnorm_def reduced_def
      report_exceeded_def omega_two_1_def [symmetric] omega_two_2_def [symmetric])

lemma poisson_iteration_two_1:
  "poisson_iteration cs_small prm_two [()] no_exchange rho_point 0 1
     \<lparr>psis = (\<lambda>p. psi_two_2 omega_two_1), rnorm_local = (\<lambda>p. (1, 3 / 2)),
       rnorm = (1, 3 / 2), omega = omega_two_2, iteration = 0, printed = []\<rparr> =
   Inr (False, two_sweeps\<lparr>iteration := 0\<rparr>)"
  using omega_two_bounds(7-12)
  by (simp add: poisson_iteration_def poisson_pass_def sor_pass_all_def Let_def
      sor_pass_two_3 sor_pass_two_4 no_exchange_def report_exceeded_def two_sweeps_def
      norm_two_def omega_two_3_def [symmetric] omega_two_4_def [symmetric])

lemma psi_sor_poisson_two:
  "psi_sor_poisson cs_small prm_two [()] no_exchange rho_point zero_field 0 = Inr two_sweeps"
proof -
  let ?B = "poisson_iteration cs_small prm_two [()] no_exchange rho_point 0"
  have "sor_loop ?B 2 0 (initial_state_poisson cs_small prm_two rho_point zero_field)
      = sor_loop ?B 2 (0 + 1)
          \<lparr>psis = (\<lambda>p. psi_two_2 omega_two_1), rnorm_local = (\<lambda>p. (1, 3 / 2)),
            rnorm = (1, 3 / 2), omega = omega_two_2, iteration = 0, printed = []\<rparr>"
    by (subst sor_loop.simps) (simp add: poisson_iteration_two_0)
  also have "\<dots> = Inr ((two_sweeps\<lparr>iteration := 0\<rparr>)\<lparr>iteration := 2\<rparr>)"
    using sor_loop_last_at [of ?B 2 _ "two_sweeps\<lparr>iteration := 0\<rparr>"]
      poisson_iteration_two_1 by simp
  also have "(two_sweeps\<lparr>iteration := 0\<rparr>)\<lparr>iteration := 2\<rparr> = two_sweeps"
    by (simp add: two_sweeps_def)
  finally show ?thesis by (simp add: psi_sor_poisson_def)
qed

lemma norm_two_bound:
  fixes om1 om2 :: real
  assumes "1 < om1" "om1 < 2" "1 < om2" "om2 < 2"
  shows "norm_two om1 om2 < 10 / 9"
proof -
  define t where "t = om1 * om2"
  have p: "1 < t" using assms by (simp add: t_def less_1_mult)
  have "om1 * om2 < 2 * 2" using assms by (intro mult_strict_mono) simp_all
  then have q: "t < 4" by (simp add: t_def)
  have r: "residual_two om1 om2 = 1 / 6 - om1 / 6 + t * (7 / 216)"
    by (simp add: residual_two_def t_def field_simps)
  have a: "\<bar>residual_two om1 om2\<bar> < 1 / 6"
    unfolding r abs_less_iff using assms(1,2) p q by simp
  have b: "\<bar>3 * (om2 * (om1 / 18) / 6)\<bar> = t / 36" using assms by (simp add: t_def)
  have c: "\<bar>om1 / 12\<bar> + 3 * \<bar>om1 / 18\<bar> = om1 / 4" using assms by simp
  show ?thesis unfolding norm_two_def b c using assms(2) q a by simp
qed

text \<open>One sweep, with a single iteration allowed\<close>

lemma sor_pass_maxits [simp]:
  "sor_pass cs (prm\<lparr>maxits := m\<rparr>) = sor_pass cs prm"
  by (simp add: fun_eq_iff sor_pass_def sor_site_def residual_poisson_def)

lemma rnorm_local0_maxits [simp]:
  "rnorm_local0_poisson cs (prm\<lparr>maxits := m\<rparr>) = rnorm_local0_poisson cs prm"
  by (simp add: fun_eq_iff rnorm_local0_poisson_def residual_poisson_def)

lemma prm_one_simps [simp]:
  "epsilon prm_one = 1" "reltol prm_one = 1 / 10000000"
  "abstol prm_one = 1 / 1000000000" "maxits prm_one = 1" "beta prm_one = 1"
  "unit_charge prm_one = 1" "nfreq prm_one = 1"
  by (simp_all add: prm_one_def)

lemma psi_sor_poisson_one:
  "psi_sor_poisson cs_small prm_one [()] no_exchange rho_point zero_field 0
     = Inr (one_sweep omega_two_1 omega_two_2)"
proof -
  have i: "initial_state_poisson cs_small prm_one rho_point zero_field =
     \<lparr>psis = (\<lambda>p i. 0), rnorm_local = (\<lambda>p. (1, 0)), rnorm = (0, 0), omega = 1,
      iteration = 0, printed = []\<rparr>"
    by (simp add: initial_state_poisson_def zero_field_eq prm_one_def rnorm_local0_two)
  have "poisson_iteration cs_small prm_one [()] no_exchange rho_point 0 (1 - 1)
      (initial_state_poisson cs_small prm_one rho_point zero_field) =
      Inr (False, (one_sweep omega_two_1 omega_two_2)\<lparr>iteration := 0\<rparr>)"
    unfolding i
    using omega_two_bounds(1-6)
    by (simp add: poisson_iteration_def poisson_pass_def sor_pass_all_def Let_def
        no_exchange_def allreduce_rnorm_def reduced_def report_exceeded_def one_sweep_def
        omega_two_1_def [symmetric] omega_two_2_def [symmetric])
      (simp add: prm_one_def sor_pass_two_1 sor_pass_two_2)
  from sor_loop_last_at
    [of "poisson_iteration cs_small prm_one [()] no_exchange rho_point 0" 1
      "initial_state_poisson cs_small prm_one rho_point zero_field", OF this]
  show ?thesis
    by (simp add: psi_sor_poisson_def one_sweep_def)
qed

lemma psi_sor_vare_poisson_one:
  "psi_sor_vare_poisson cs_small prm_one [()] no_exchange one_field rho_point zero_field 0
     = Inr (one_sweep 1 omega_small_vare)"
proof -
  have e: "one_field p i = epsilon prm_one" for p i by (simp add: one_field_def)
  have i: "initial_state_vare cs_small prm_one one_field rho_point zero_field =
     \<lparr>psis = (\<lambda>p i. 0), rnorm_local = (\<lambda>p. (1, 0)), rnorm = (0, 0), omega = 1,
      iteration = 0, printed = []\<rparr>"
    unfolding initial_state_constant [of one_field prm_one, OF e]
    by (simp add: initial_state_poisson_def zero_field_eq prm_one_def rnorm_local0_two)
  have "vare_iteration cs_small prm_one [()] no_exchange one_field rho_point 0 (1 - 1)
      (initial_state_vare cs_small prm_one one_field rho_point zero_field) =
      Inr (False, (one_sweep 1 omega_small_vare)\<lparr>iteration := 0\<rparr>)"
    unfolding i
    by (simp add: vare_iteration_def vare_pass_def Let_def
        vare_sweep_constant [of "one_field ()" prm_one, OF e]
        no_exchange_def allreduce_rnorm_def reduced_def report_exceeded_def one_sweep_def
        omega_small_vare_def)
      (simp add: prm_one_def sor_pass_two_1 sor_pass_two_2)
  from sor_loop_last_at
    [of "vare_iteration cs_small prm_one [()] no_exchange one_field rho_point 0" 1
      "initial_state_vare cs_small prm_one one_field rho_point zero_field", OF this]
  show ?thesis
    by (simp add: psi_sor_vare_poisson_def one_sweep_def)
qed

lemma all_sites_pair:
  "all_sites cs_pair = [(1, 1, 1), (1, 1, 2), (1, 2, 1), (1, 2, 2),
                        (2, 1, 1), (2, 1, 2), (2, 2, 1), (2, 2, 2)]"
  by (simp add: all_sites_def upto.simps)

lemma rnorm_local0_pair:
  "rnorm_local0_poisson cs_pair prm_small (rho_pair p) (\<lambda>i. 0) = (if p = (0, 0, 0) then 1 else 2)"
  "rnorm_local0_vare cs_pair prm_small eps_step (rho_pair p) (\<lambda>i. 0)
     = (if p = (0, 0, 0) then 1 else 2)"
  by (simp_all add: rnorm_local0_poisson_def rnorm_local0_vare_def all_sites_pair site_index_pair
      residual_poisson_def residual_vare_def dpsi_stencil_def depsi_vare_at_rest strides_pair
      rho_pair_def)

lemma integral_pair [simp]: "integral_extents cs_pair"
  by (simp add: integral_extents_def)

text \<open>
  C1. In either solver the residual norm accumulated over the sweep just completed (on
  each process the sum, over the sites of the two passes, of the absolute residual of
  the potential the pass started with) is summed over the processes at every check
  (every fifth iteration of \<open>psi_sor_poisson\<close>, every iteration of
  \<open>psi_sor_vare_poisson\<close>), together with the initial norm, which no iteration alters and
  which is the sum over the processes of the norm of the potential the solve was given.
  The summed norm is compared with the absolute tolerance and with the relative tolerance
  times the initial norm; the body leaves the loop exactly when one of the two
  comparisons succeeds at a check, the loop then stops at once, and a solve that returns
  with \<open>n < niteration\<close> has its summed norm below one of the two tolerances.
\<close>

theorem residual_check:
  "(poisson_iteration cs prm procs halo rho_elec its n st = Inr r \<longrightarrow>
      (\<forall>p. fst (rnorm_local (snd r) p) = fst (rnorm_local st p))
      \<and> (1 \<le> nhalo cs \<longrightarrow>
           (\<exists>st1. poisson_pass cs prm halo rho_elec n 0
                    (st\<lparr>rnorm_local := (\<lambda>p. (fst (rnorm_local st p), 0))\<rparr>) = Inr st1
              \<and> (\<forall>p. snd (rnorm_local (snd r) p) =
                    (\<Sum>s\<leftarrow>pass_sites cs 0.
                       \<bar>residual_poisson cs prm (rho_elec p) (psis st p) (site_index cs s)\<bar>)
                  + (\<Sum>s\<leftarrow>pass_sites cs 1.
                       \<bar>residual_poisson cs prm (rho_elec p) (psis st1 p) (site_index cs s)\<bar>))))
      \<and> rnorm (snd r) =
          (if n mod 5 = 0
           then (\<Sum>p\<leftarrow>procs. fst (rnorm_local (snd r) p), \<Sum>p\<leftarrow>procs. snd (rnorm_local (snd r) p))
           else rnorm st)
      \<and> fst r = (n mod 5 = 0 \<and> (snd (rnorm (snd r)) < abstol prm
                   \<or> snd (rnorm (snd r)) < reltol prm * fst (rnorm (snd r)))))
   \<and> (vare_iteration cs prm procs halo fepsilon rho_elec its n st = Inr r' \<longrightarrow>
      (\<forall>p. fst (rnorm_local (snd r') p) = fst (rnorm_local st p))
      \<and> (1 \<le> nhalo cs \<longrightarrow>
           (\<forall>p. snd (rnorm_local (snd r') p) =
              (\<Sum>s\<leftarrow>pass_sites cs 0.
                 \<bar>residual_vare cs prm (fepsilon p) (rho_elec p) (psis st p) (site_index cs s)\<bar>)
            + (\<Sum>s\<leftarrow>pass_sites cs 1.
                 \<bar>residual_vare cs prm (fepsilon p) (rho_elec p)
                    (psis (vare_pass cs prm halo fepsilon rho_elec 0
                       (st\<lparr>rnorm_local := (\<lambda>p. (fst (rnorm_local st p), 0))\<rparr>)) p)
                    (site_index cs s)\<bar>)))
      \<and> rnorm (snd r') =
          (\<Sum>p\<leftarrow>procs. fst (rnorm_local (snd r') p), \<Sum>p\<leftarrow>procs. snd (rnorm_local (snd r') p))
      \<and> fst r' = (snd (rnorm (snd r')) < abstol prm
                   \<or> snd (rnorm (snd r')) < reltol prm * fst (rnorm (snd r'))))
   \<and> (body n st = Inr rb \<and> fst rb \<and> n < niteration \<longrightarrow>
        sor_loop body niteration n st = Inr ((snd rb)\<lparr>iteration := n\<rparr>))
   \<and> (psi_sor_poisson cs prm procs halo rho_elec psi_init its = Inr res \<and> 0 < maxits prm \<longrightarrow>
        fst (rnorm res)
          = (\<Sum>p\<leftarrow>procs. rnorm_local0_poisson cs prm (rho_elec p) (psi_init p))
        \<and> (iteration res < maxits prm \<longrightarrow>
             iteration res mod 5 = 0
             \<and> snd (rnorm res) = (\<Sum>p\<leftarrow>procs. snd (rnorm_local res p))
             \<and> (snd (rnorm res) < abstol prm
                  \<or> snd (rnorm res) < reltol prm * fst (rnorm res))))
   \<and> (psi_sor_vare_poisson cs prm procs halo fepsilon rho_elec psi_init its = Inr res'
        \<and> 0 < maxits prm \<longrightarrow>
        fst (rnorm res')
          = (\<Sum>p\<leftarrow>procs. rnorm_local0_vare cs prm (fepsilon p) (rho_elec p) (psi_init p))
        \<and> snd (rnorm res') = (\<Sum>p\<leftarrow>procs. snd (rnorm_local res' p))
        \<and> (iteration res' < maxits prm \<longrightarrow>
             snd (rnorm res') < abstol prm
             \<or> snd (rnorm res') < reltol prm * fst (rnorm res')))"
proof (intro conjI impI allI)
  assume a: "poisson_iteration cs prm procs halo rho_elec its n st = Inr r"
  show "fst (rnorm_local (snd r) p) = fst (rnorm_local st p)" for p
    by (rule poisson_iteration_fst_local [OF a])
  show "\<exists>st1. poisson_pass cs prm halo rho_elec n 0
                    (st\<lparr>rnorm_local := (\<lambda>p. (fst (rnorm_local st p), 0))\<rparr>) = Inr st1
              \<and> (\<forall>p. snd (rnorm_local (snd r) p) =
                    (\<Sum>s\<leftarrow>pass_sites cs 0.
                       \<bar>residual_poisson cs prm (rho_elec p) (psis st p) (site_index cs s)\<bar>)
                  + (\<Sum>s\<leftarrow>pass_sites cs 1.
                       \<bar>residual_poisson cs prm (rho_elec p) (psis st1 p) (site_index cs s)\<bar>))"
    if "1 \<le> nhalo cs"
    by (rule poisson_iteration_accumulates [OF a that])
  show "rnorm (snd r) =
          (if n mod 5 = 0
           then (\<Sum>p\<leftarrow>procs. fst (rnorm_local (snd r) p), \<Sum>p\<leftarrow>procs. snd (rnorm_local (snd r) p))
           else rnorm st)"
    using poisson_iteration_check(1) [OF a] by (simp add: reduced_def)
  show "fst r = (n mod 5 = 0 \<and> (snd (rnorm (snd r)) < abstol prm
                   \<or> snd (rnorm (snd r)) < reltol prm * fst (rnorm (snd r))))"
    by (rule poisson_iteration_check(2) [OF a])
next
  assume a: "vare_iteration cs prm procs halo fepsilon rho_elec its n st = Inr r'"
  show "fst (rnorm_local (snd r') p) = fst (rnorm_local st p)" for p
    by (rule vare_iteration_fst_local [OF a])
  show "snd (rnorm_local (snd r') p) =
              (\<Sum>s\<leftarrow>pass_sites cs 0.
                 \<bar>residual_vare cs prm (fepsilon p) (rho_elec p) (psis st p) (site_index cs s)\<bar>)
            + (\<Sum>s\<leftarrow>pass_sites cs 1.
                 \<bar>residual_vare cs prm (fepsilon p) (rho_elec p)
                    (psis (vare_pass cs prm halo fepsilon rho_elec 0
                       (st\<lparr>rnorm_local := (\<lambda>p. (fst (rnorm_local st p), 0))\<rparr>)) p)
                    (site_index cs s)\<bar>)"
    if "1 \<le> nhalo cs" for p
    by (rule vare_iteration_accumulates [OF a that])
  show "rnorm (snd r') =
          (\<Sum>p\<leftarrow>procs. fst (rnorm_local (snd r') p), \<Sum>p\<leftarrow>procs. snd (rnorm_local (snd r') p))"
    using vare_iteration_Inr(4) [OF a] by (simp add: reduced_def)
  show "fst r' = (snd (rnorm (snd r')) < abstol prm
                   \<or> snd (rnorm (snd r')) < reltol prm * fst (rnorm (snd r')))"
    by (rule vare_iteration_Inr(5) [OF a])
next
  assume "body n st = Inr rb \<and> fst rb \<and> n < niteration"
  then show "sor_loop body niteration n st = Inr ((snd rb)\<lparr>iteration := n\<rparr>)"
    using sor_loop_break by blast
next
  assume a: "psi_sor_poisson cs prm procs halo rho_elec psi_init its = Inr res
      \<and> 0 < maxits prm"
  show "fst (rnorm res) = (\<Sum>p\<leftarrow>procs. rnorm_local0_poisson cs prm (rho_elec p) (psi_init p))"
    using poisson_initial_norm_reduced [of cs prm procs halo rho_elec psi_init its res] a
    by simp
  assume b: "iteration res < maxits prm"
  from poisson_converged [of cs prm procs halo rho_elec psi_init its res] a b
  have c: "iteration res mod 5 = 0" "rnorm res = reduced procs res"
    "snd (rnorm res) < abstol prm \<or> snd (rnorm res) < reltol prm * fst (rnorm res)"
    by blast+
  show "iteration res mod 5 = 0" by (rule c(1))
  show "snd (rnorm res) = (\<Sum>p\<leftarrow>procs. snd (rnorm_local res p))"
    unfolding c(2) by (rule snd_reduced)
  show "snd (rnorm res) < abstol prm \<or> snd (rnorm res) < reltol prm * fst (rnorm res)"
    by (rule c(3))
next
  assume a: "psi_sor_vare_poisson cs prm procs halo fepsilon rho_elec psi_init its = Inr res'
      \<and> 0 < maxits prm"
  show "fst (rnorm res')
      = (\<Sum>p\<leftarrow>procs. rnorm_local0_vare cs prm (fepsilon p) (rho_elec p) (psi_init p))"
    and "snd (rnorm res') = (\<Sum>p\<leftarrow>procs. snd (rnorm_local res' p))"
    using vare_norms_result [of cs prm procs halo fepsilon rho_elec psi_init its res'] a
    by simp_all
  assume b: "iteration res' < maxits prm"
  from vare_converged [of cs prm procs halo fepsilon rho_elec psi_init its res'] a b
  show "snd (rnorm res') < abstol prm \<or> snd (rnorm res') < reltol prm * fst (rnorm res')"
    by blast
qed

theorem residual_check_witness:
  "poisson_iteration cs_small prm_thin [()] no_exchange rho_point 0 0
     (initial_state_poisson cs_small prm_thin rho_point zero_field) =
     Inr (True, solved_thin (omega_poisson (sor_radius cs_small) 0 0 1) omega_small_poisson)
   \<and> vare_iteration cs_small prm_thin [()] no_exchange eps_thin rho_point 0 0
     (initial_state_vare cs_small prm_thin eps_thin rho_point zero_field) =
     Inr (True, solved_thin 1 omega_small_vare)
   \<and> 1 \<le> nhalo cs_small \<and> (0::int) < 10 \<and> 0 < maxits prm_thin
   \<and> psi_sor_poisson cs_small prm_thin [()] no_exchange rho_point zero_field 0 =
       Inr (solved_thin (omega_poisson (sor_radius cs_small) 0 0 1) omega_small_poisson)
   \<and> iteration (solved_thin (omega_poisson (sor_radius cs_small) 0 0 1) omega_small_poisson)
       < maxits prm_thin
   \<and> psi_sor_vare_poisson cs_small prm_thin [()] no_exchange eps_thin rho_point zero_field 0 =
       Inr (solved_thin 1 omega_small_vare)
   \<and> iteration (solved_thin 1 omega_small_vare) < maxits prm_thin
   \<and> rnorm (solved_thin (omega_poisson (sor_radius cs_small) 0 0 1) omega_small_poisson)
       = (\<Sum>p\<leftarrow>[()]. fst (rnorm_local
            (solved_thin (omega_poisson (sor_radius cs_small) 0 0 1) omega_small_poisson) p),
          \<Sum>p\<leftarrow>[()]. snd (rnorm_local
            (solved_thin (omega_poisson (sor_radius cs_small) 0 0 1) omega_small_poisson) p))
   \<and> rnorm (solved_thin (omega_poisson (sor_radius cs_small) 0 0 1) omega_small_poisson)
       = (1, 3 / 2)
   \<and> snd (rnorm_local (solved_thin 1 omega_small_vare) ()) =
       (\<Sum>s\<leftarrow>pass_sites cs_small 0.
          \<bar>residual_vare cs_small prm_thin (eps_thin ()) (rho_point ())
             (psis (initial_state_vare cs_small prm_thin eps_thin rho_point zero_field) ())
             (site_index cs_small s)\<bar>)
     + (\<Sum>s\<leftarrow>pass_sites cs_small 1.
          \<bar>residual_vare cs_small prm_thin (eps_thin ()) (rho_point ())
             (psis (vare_pass cs_small prm_thin no_exchange eps_thin rho_point 0
                ((initial_state_vare cs_small prm_thin eps_thin rho_point zero_field)
                   \<lparr>rnorm_local := (\<lambda>p. (fst (rnorm_local
                      (initial_state_vare cs_small prm_thin eps_thin rho_point zero_field) p),
                      0))\<rparr>)) ())
             (site_index cs_small s)\<bar>)
   \<and> sor_loop (poisson_iteration cs_small prm_thin [()] no_exchange rho_point 0) 10 0
        (initial_state_poisson cs_small prm_thin rho_point zero_field) =
       Inr ((solved_thin (omega_poisson (sor_radius cs_small) 0 0 1) omega_small_poisson)
              \<lparr>iteration := 0\<rparr>)
   \<and> fst (rnorm (solved_thin (omega_poisson (sor_radius cs_small) 0 0 1) omega_small_poisson))
       = (\<Sum>p\<leftarrow>[()]. rnorm_local0_poisson cs_small prm_thin (rho_point p) (zero_field p))
   \<and> snd (rnorm (solved_thin (omega_poisson (sor_radius cs_small) 0 0 1) omega_small_poisson))
       < abstol prm_thin
   \<and> fst (rnorm (solved_thin 1 omega_small_vare))
       = (\<Sum>p\<leftarrow>[()]. rnorm_local0_vare cs_small prm_thin (eps_thin p) (rho_point p)
            (zero_field p))
   \<and> snd (rnorm (solved_thin 1 omega_small_vare)) < abstol prm_thin
   \<and> (\<exists>res. psi_sor_poisson cs_pair prm_small [(0, 0, 0), (1, 0, 0)] (field_halo cs_pair 1)
               rho_pair (\<lambda>p i. 0) 0 = Inr res
          \<and> fst (rnorm res) = 3)
   \<and> (\<exists>res. psi_sor_vare_poisson cs_pair prm_small [(0, 0, 0), (1, 0, 0)]
               (field_halo cs_pair 1) (\<lambda>p. eps_step) rho_pair (\<lambda>p i. 0) 0 = Inr res
          \<and> fst (rnorm res) = 3
          \<and> snd (rnorm res)
              = snd (rnorm_local res (0, 0, 0)) + snd (rnorm_local res (1, 0, 0)))"
proof -
  let ?U = "solved_thin (omega_poisson (sor_radius cs_small) 0 0 1) omega_small_poisson"
  let ?V = "solved_thin 1 omega_small_vare"
  let ?iu = "initial_state_poisson cs_small prm_thin rho_point zero_field"
  let ?iv = "initial_state_vare cs_small prm_thin eps_thin rho_point zero_field"
  have g: "1 \<le> nhalo cs_small" "(0::int) < 10" "0 < maxits prm_thin"
    "iteration ?U < maxits prm_thin" "iteration ?V < maxits prm_thin"
    by (simp_all add: solved_thin_def)
  note u = residual_check
    [where cs = cs_small and prm = prm_thin and procs = "[()]" and halo = no_exchange
      and rho_elec = rho_point and its = 0 and n = 0 and st = ?iu and r = "(True, ?U)"
      and body = "poisson_iteration cs_small prm_thin [()] no_exchange rho_point 0"
      and rb = "(True, ?U)" and niteration = 10 and psi_init = zero_field and res = ?U]
  note v = residual_check
    [where cs = cs_small and prm = prm_thin and procs = "[()]" and halo = no_exchange
      and rho_elec = rho_point and its = 0 and n = 0 and st = ?iv and r' = "(True, ?V)"
      and fepsilon = eps_thin and psi_init = zero_field and res' = ?V]
  note c1 = u [THEN conjunct1, THEN mp, OF poisson_iteration_thin]
  note c2 = v [THEN conjunct2, THEN conjunct1, THEN mp, OF vare_iteration_thin]
  note c3 = u [THEN conjunct2, THEN conjunct2, THEN conjunct1, THEN mp]
  note c4 = u [THEN conjunct2, THEN conjunct2, THEN conjunct2, THEN conjunct1, THEN mp]
  note c5 = v [THEN conjunct2, THEN conjunct2, THEN conjunct2, THEN conjunct2, THEN mp]
  from c1 [THEN conjunct2, THEN conjunct2, THEN conjunct1]
  have 1: "rnorm ?U = (\<Sum>p\<leftarrow>[()]. fst (rnorm_local ?U p), \<Sum>p\<leftarrow>[()]. snd (rnorm_local ?U p))"
    by simp
  have 2: "rnorm ?U = (1, 3 / 2)" by (simp add: solved_thin_def)
  from c2 [THEN conjunct2, THEN conjunct1, THEN mp, OF g(1), THEN spec, of "()"]
  have 3: "snd (rnorm_local ?V ()) =
       (\<Sum>s\<leftarrow>pass_sites cs_small 0.
          \<bar>residual_vare cs_small prm_thin (eps_thin ()) (rho_point ()) (psis ?iv ())
             (site_index cs_small s)\<bar>)
     + (\<Sum>s\<leftarrow>pass_sites cs_small 1.
          \<bar>residual_vare cs_small prm_thin (eps_thin ()) (rho_point ())
             (psis (vare_pass cs_small prm_thin no_exchange eps_thin rho_point 0
                (?iv\<lparr>rnorm_local := (\<lambda>p. (fst (rnorm_local ?iv p), 0))\<rparr>)) ())
             (site_index cs_small s)\<bar>)"
    unfolding snd_conv .
  from c3 poisson_iteration_thin g(2)
  have 4: "sor_loop (poisson_iteration cs_small prm_thin [()] no_exchange rho_point 0) 10 0 ?iu
      = Inr (?U\<lparr>iteration := 0\<rparr>)"
    by simp
  from c4 psi_sor_poisson_thin g(3)
  have 5: "fst (rnorm ?U)
      = (\<Sum>p\<leftarrow>[()]. rnorm_local0_poisson cs_small prm_thin (rho_point p) (zero_field p))"
    by blast
  have 6: "snd (rnorm ?U) < abstol prm_thin" "snd (rnorm ?V) < abstol prm_thin"
    by (simp_all add: solved_thin_def)
  from c5 psi_sor_vare_poisson_thin g(3)
  have 7: "fst (rnorm ?V)
      = (\<Sum>p\<leftarrow>[()]. rnorm_local0_vare cs_small prm_thin (eps_thin p) (rho_point p)
           (zero_field p))"
    by blast
  have 8: "\<exists>res. psi_sor_poisson cs_pair prm_small [(0, 0, 0), (1, 0, 0)] (field_halo cs_pair 1)
               rho_pair (\<lambda>p i. 0) 0 = Inr res \<and> fst (rnorm res) = 3"
  proof -
    obtain res where r: "psi_sor_poisson cs_pair prm_small [(0, 0, 0), (1, 0, 0)]
        (field_halo cs_pair 1) rho_pair (\<lambda>p i. 0) 0 = Inr res"
      using poisson_returns [of cs_pair prm_small "[(0, 0, 0), (1, 0, 0)]"
          "field_halo cs_pair 1" rho_pair "\<lambda>p i. 0" 0]
      by auto
    from residual_check
      [where cs = cs_pair and prm = prm_small and procs = "[(0, 0, 0), (1, 0, 0)]"
        and halo = "field_halo cs_pair 1" and rho_elec = rho_pair and psi_init = "\<lambda>p i. 0"
        and its = 0 and res = res] r
    have "fst (rnorm res) = (\<Sum>p\<leftarrow>[(0, 0, 0), (1, 0, 0)].
        rnorm_local0_poisson cs_pair prm_small (rho_pair p) (\<lambda>i. 0))"
      by simp
    then have "fst (rnorm res) = 3" by (simp add: rnorm_local0_pair)
    with r show ?thesis by blast
  qed
  have 9: "\<exists>res. psi_sor_vare_poisson cs_pair prm_small [(0, 0, 0), (1, 0, 0)]
               (field_halo cs_pair 1) (\<lambda>p. eps_step) rho_pair (\<lambda>p i. 0) 0 = Inr res
          \<and> fst (rnorm res) = 3
          \<and> snd (rnorm res)
              = snd (rnorm_local res (0, 0, 0)) + snd (rnorm_local res (1, 0, 0))"
  proof -
    obtain res where r: "psi_sor_vare_poisson cs_pair prm_small [(0, 0, 0), (1, 0, 0)]
        (field_halo cs_pair 1) (\<lambda>p. eps_step) rho_pair (\<lambda>p i. 0) 0 = Inr res"
      using vare_returns [of cs_pair prm_small "[(0, 0, 0), (1, 0, 0)]"
          "field_halo cs_pair 1" "\<lambda>p. eps_step" rho_pair "\<lambda>p i. 0" 0]
      by auto
    from residual_check
      [where cs = cs_pair and prm = prm_small and procs = "[(0, 0, 0), (1, 0, 0)]"
        and halo = "field_halo cs_pair 1" and rho_elec = rho_pair and psi_init = "\<lambda>p i. 0"
        and its = 0 and res' = res and fepsilon = "\<lambda>p. eps_step"] r
    have "fst (rnorm res) = (\<Sum>p\<leftarrow>[(0, 0, 0), (1, 0, 0)].
        rnorm_local0_vare cs_pair prm_small eps_step (rho_pair p) (\<lambda>i. 0))"
      and "snd (rnorm res) = (\<Sum>p\<leftarrow>[(0, 0, 0), (1, 0, 0)]. snd (rnorm_local res p))"
      by simp_all
    then have "fst (rnorm res) = 3"
      and "snd (rnorm res) = snd (rnorm_local res (0, 0, 0)) + snd (rnorm_local res (1, 0, 0))"
      by (simp_all add: rnorm_local0_pair)
    with r show ?thesis by blast
  qed
  from poisson_iteration_thin vare_iteration_thin g psi_sor_poisson_thin
    psi_sor_vare_poisson_thin 1 2 3 4 5 6 7 8 9
  show ?thesis by blast
qed

text \<open>
  C8, as stated: when the iterations run out, the solver reports the initial and the
  final residual norm. \<open>psi_sor_poisson\<close> reduces the norm only at its checks, every
  fifth iteration, and reports what the latest check left. Given two iterations on the
  small system with a point charge, it reports 3/2 as the final norm: that is the norm
  of its first sweep, reduced at the check of iteration 0, while the norm accumulated
  over its second and last sweep is below 10/9.
\<close>

theorem exceeded_reports_stale_norm:
  "psi_sor_poisson cs_small prm_two [()] no_exchange rho_point zero_field 0 = Inr two_sweeps
   \<and> \<not> iteration two_sweeps < maxits prm_two
   \<and> last (printed two_sweeps) = Exceeded 2 1 (3 / 2)
   \<and> (\<Sum>p\<leftarrow>[()]. snd (rnorm_local two_sweeps p)) < 10 / 9"
proof -
  have "norm_two omega_two_1 omega_two_2 < 10 / 9"
    by (rule norm_two_bound) (rule omega_two_bounds)+
  then show ?thesis
    by (simp add: psi_sor_poisson_two) (simp add: two_sweeps_def)
qed

text \<open>
  C8, amended: when a solve runs out of iterations (at least one being allowed) it
  returns with \<open>n = niteration\<close>, and the last thing printed is the report of the
  iteration count with \<open>rnorm[0]\<close> and \<open>rnorm[1]\<close>. The first is the initial norm, the
  sum over the processes of the norm of the potential the solve was given. The second is
  the norm summed at the latest check: in \<open>psi_sor_vare_poisson\<close>, which checks at
  every iteration, the sum over the processes of the norm accumulated over the last
  sweep; in \<open>psi_sor_poisson\<close> the sum over the processes of the norm accumulated over
  sweep \<open>5 * ((niteration - 1) div 5)\<close>, that is of the state the loop is in when run
  only up to and including that iteration, which is the last sweep when
  \<open>niteration - 1\<close> is a multiple of 5. The state returned is the one the last iteration
  left, potential included. No solve aborts for lack of convergence: with the assertions
  on the geometry met (for \<open>psi_sor_poisson\<close> also integer lengths with
  \<open>max(Lx, Lz) \<ge> 2\<close>) and \<open>nfreq\<close> not zero, either solver returns normally.
\<close>

theorem exceeded_iterations:
  "(psi_sor_poisson cs prm procs halo rho_elec psi_init its = Inr res
      \<and> \<not> iteration res < maxits prm \<and> 1 \<le> maxits prm \<longrightarrow>
      iteration res = maxits prm \<and> printed res \<noteq> []
      \<and> last (printed res) = Exceeded (maxits prm) (fst (rnorm res)) (snd (rnorm res))
      \<and> fst (rnorm res)
          = (\<Sum>p\<leftarrow>procs. rnorm_local0_poisson cs prm (rho_elec p) (psi_init p))
      \<and> (\<exists>st. sor_loop (poisson_iteration cs prm procs halo rho_elec its)
                  (5 * ((maxits prm - 1) div 5) + 1) 0
                  (initial_state_poisson cs prm rho_elec psi_init) = Inr st
            \<and> iteration st = 5 * ((maxits prm - 1) div 5) + 1
            \<and> snd (rnorm res) = (\<Sum>p\<leftarrow>procs. snd (rnorm_local st p)))
      \<and> ((maxits prm - 1) mod 5 = 0 \<longrightarrow>
            snd (rnorm res) = (\<Sum>p\<leftarrow>procs. snd (rnorm_local res p))))
   \<and> (psi_sor_vare_poisson cs prm procs halo fepsilon rho_elec psi_init its = Inr res'
      \<and> \<not> iteration res' < maxits prm \<and> 1 \<le> maxits prm \<longrightarrow>
      iteration res' = maxits prm \<and> printed res' \<noteq> []
      \<and> last (printed res') = Exceeded (maxits prm) (fst (rnorm res')) (snd (rnorm res'))
      \<and> fst (rnorm res')
          = (\<Sum>p\<leftarrow>procs. rnorm_local0_vare cs prm (fepsilon p) (rho_elec p) (psi_init p))
      \<and> snd (rnorm res') = (\<Sum>p\<leftarrow>procs. snd (rnorm_local res' p)))
   \<and> (body (niteration - 1) st = Inr r \<and> \<not> fst r \<longrightarrow>
        sor_loop body niteration (niteration - 1) st = Inr ((snd r)\<lparr>iteration := niteration\<rparr>))
   \<and> (1 \<le> nhalo cs \<and> even_extents cs \<and> integral_extents cs
        \<and> (2 \<le> ntotal cs X \<or> 2 \<le> ntotal cs Z) \<and> nfreq prm \<noteq> 0 \<longrightarrow>
        (\<exists>res. psi_sor_poisson cs prm procs halo rho_elec psi_init its = Inr res))
   \<and> (even_extents cs \<and> nfreq prm \<noteq> 0 \<longrightarrow>
        (\<exists>res. psi_sor_vare_poisson cs prm procs halo fepsilon rho_elec psi_init its = Inr res))"
proof (intro conjI impI)
  assume a: "psi_sor_poisson cs prm procs halo rho_elec psi_init its = Inr res
      \<and> \<not> iteration res < maxits prm \<and> 1 \<le> maxits prm"
  then have run: "psi_sor_poisson cs prm procs halo rho_elec psi_init its = Inr res"
    and ex: "\<not> iteration res < maxits prm" and m: "1 \<le> maxits prm" by simp_all
  show "iteration res = maxits prm" "printed res \<noteq> []"
    "last (printed res) = Exceeded (maxits prm) (fst (rnorm res)) (snd (rnorm res))"
    using poisson_exceeded_report [OF run ex m] by simp_all
  show "fst (rnorm res)
      = (\<Sum>p\<leftarrow>procs. rnorm_local0_poisson cs prm (rho_elec p) (psi_init p))"
    using poisson_initial_norm_reduced [OF run] m by simp
  show "\<exists>st. sor_loop (poisson_iteration cs prm procs halo rho_elec its)
                  (5 * ((maxits prm - 1) div 5) + 1) 0
                  (initial_state_poisson cs prm rho_elec psi_init) = Inr st
            \<and> iteration st = 5 * ((maxits prm - 1) div 5) + 1
            \<and> snd (rnorm res) = (\<Sum>p\<leftarrow>procs. snd (rnorm_local st p))"
    by (rule poisson_exceeded_norm [OF run ex m])
  show "snd (rnorm res) = (\<Sum>p\<leftarrow>procs. snd (rnorm_local res p))"
    if "(maxits prm - 1) mod 5 = 0"
    by (rule poisson_exceeded_norm_fresh [OF run ex m that])
next
  assume a: "psi_sor_vare_poisson cs prm procs halo fepsilon rho_elec psi_init its = Inr res'
      \<and> \<not> iteration res' < maxits prm \<and> 1 \<le> maxits prm"
  then have run: "psi_sor_vare_poisson cs prm procs halo fepsilon rho_elec psi_init its
      = Inr res'"
    and ex: "\<not> iteration res' < maxits prm" and m: "1 \<le> maxits prm" by simp_all
  show "iteration res' = maxits prm" "printed res' \<noteq> []"
    "last (printed res') = Exceeded (maxits prm) (fst (rnorm res')) (snd (rnorm res'))"
    using vare_exceeded_report [OF run ex m] by simp_all
  from m have "0 < maxits prm" by simp
  from vare_norms_result [OF run this]
  show "fst (rnorm res')
      = (\<Sum>p\<leftarrow>procs. rnorm_local0_vare cs prm (fepsilon p) (rho_elec p) (psi_init p))"
    and "snd (rnorm res') = (\<Sum>p\<leftarrow>procs. snd (rnorm_local res' p))" .
next
  assume "body (niteration - 1) st = Inr r \<and> \<not> fst r"
  then show "sor_loop body niteration (niteration - 1) st
      = Inr ((snd r)\<lparr>iteration := niteration\<rparr>)"
    using sor_loop_last by blast
next
  assume "1 \<le> nhalo cs \<and> even_extents cs \<and> integral_extents cs
        \<and> (2 \<le> ntotal cs X \<or> 2 \<le> ntotal cs Z) \<and> nfreq prm \<noteq> 0"
  then show "\<exists>res. psi_sor_poisson cs prm procs halo rho_elec psi_init its = Inr res"
    using poisson_returns by blast
next
  assume "even_extents cs \<and> nfreq prm \<noteq> 0"
  then show "\<exists>res. psi_sor_vare_poisson cs prm procs halo fepsilon rho_elec psi_init its = Inr res"
    using vare_returns by blast
qed

theorem exceeded_iterations_witness:
  "psi_sor_poisson cs_small prm_two [()] no_exchange rho_point zero_field 0 = Inr two_sweeps
   \<and> \<not> iteration two_sweeps < maxits prm_two \<and> 1 \<le> maxits prm_two
   \<and> psi_sor_poisson cs_small prm_one [()] no_exchange rho_point zero_field 0
       = Inr (one_sweep omega_two_1 omega_two_2)
   \<and> \<not> iteration (one_sweep omega_two_1 omega_two_2) < maxits prm_one \<and> 1 \<le> maxits prm_one
   \<and> (maxits prm_one - 1) mod 5 = 0
   \<and> psi_sor_vare_poisson cs_small prm_one [()] no_exchange one_field rho_point zero_field 0
       = Inr (one_sweep 1 omega_small_vare)
   \<and> \<not> iteration (one_sweep 1 omega_small_vare) < maxits prm_one
   \<and> poisson_iteration cs_small prm_two [()] no_exchange rho_point 0 (2 - 1)
       \<lparr>psis = (\<lambda>p. psi_two_2 omega_two_1), rnorm_local = (\<lambda>p. (1, 3 / 2)),
         rnorm = (1, 3 / 2), omega = omega_two_2, iteration = 0, printed = []\<rparr>
       = Inr (False, two_sweeps\<lparr>iteration := 0\<rparr>)
   \<and> 1 \<le> nhalo cs_small \<and> even_extents cs_small \<and> integral_extents cs_small
   \<and> (2 \<le> ntotal cs_small X \<or> 2 \<le> ntotal cs_small Z) \<and> nfreq prm_two \<noteq> 0
   \<and> last (printed two_sweeps) = Exceeded 2 1 (3 / 2)
   \<and> fst (rnorm two_sweeps) = 1
   \<and> (\<exists>st. sor_loop (poisson_iteration cs_small prm_two [()] no_exchange rho_point 0) 1 0
               (initial_state_poisson cs_small prm_two rho_point zero_field) = Inr st
          \<and> iteration st = 1
          \<and> snd (rnorm two_sweeps) = (\<Sum>p\<leftarrow>[()]. snd (rnorm_local st p)))
   \<and> last (printed (one_sweep omega_two_1 omega_two_2)) = Exceeded 1 1 (3 / 2)
   \<and> snd (rnorm (one_sweep omega_two_1 omega_two_2))
       = (\<Sum>p\<leftarrow>[()]. snd (rnorm_local (one_sweep omega_two_1 omega_two_2) p))
   \<and> last (printed (one_sweep 1 omega_small_vare)) = Exceeded 1 1 (3 / 2)
   \<and> fst (rnorm (one_sweep 1 omega_small_vare)) = 1
   \<and> snd (rnorm (one_sweep 1 omega_small_vare))
       = (\<Sum>p\<leftarrow>[()]. snd (rnorm_local (one_sweep 1 omega_small_vare) p))
   \<and> sor_loop (poisson_iteration cs_small prm_two [()] no_exchange rho_point 0) 2 (2 - 1)
       \<lparr>psis = (\<lambda>p. psi_two_2 omega_two_1), rnorm_local = (\<lambda>p. (1, 3 / 2)),
         rnorm = (1, 3 / 2), omega = omega_two_2, iteration = 0, printed = []\<rparr>
       = Inr ((two_sweeps\<lparr>iteration := 0\<rparr>)\<lparr>iteration := 2\<rparr>)
   \<and> (\<exists>res. psi_sor_poisson cs_small prm_two [()] no_exchange rho_point one_field 0
          = Inr res)
   \<and> (\<exists>res. psi_sor_vare_poisson cs_small prm_two [()] no_exchange eps_thin rho_point
          one_field 0 = Inr res)"
proof -
  let ?B = "poisson_iteration cs_small prm_two [()] no_exchange rho_point 0"
  let ?sa = "\<lparr>psis = (\<lambda>p. psi_two_2 omega_two_1), rnorm_local = (\<lambda>p. (1, 3 / 2)),
         rnorm = (1, 3 / 2), omega = omega_two_2, iteration = 0, printed = []\<rparr> :: unit sor_state"
  let ?P = "one_sweep omega_two_1 omega_two_2"
  let ?V = "one_sweep 1 omega_small_vare"
  have i: "\<not> iteration two_sweeps < maxits prm_two" "1 \<le> maxits prm_two"
    "\<not> iteration ?P < maxits prm_one" "1 \<le> maxits prm_one" "(maxits prm_one - 1) mod 5 = 0"
    "\<not> iteration ?V < maxits prm_one"
    by (simp_all add: two_sweeps_def one_sweep_def)
  have it: "?B (2 - 1) ?sa = Inr (False, two_sweeps\<lparr>iteration := 0\<rparr>)"
    using poisson_iteration_two_1 by simp
  have g: "1 \<le> nhalo cs_small" "even_extents cs_small" "integral_extents cs_small"
    "2 \<le> ntotal cs_small X \<or> 2 \<le> ntotal cs_small Z" "nfreq prm_two \<noteq> 0"
    by simp_all
  note a = exceeded_iterations
    [where cs = cs_small and prm = prm_two and procs = "[()]" and halo = no_exchange
      and rho_elec = rho_point and psi_init = zero_field and its = 0 and res = two_sweeps
      and body = ?B and niteration = 2 and st = ?sa
      and r = "(False, two_sweeps\<lparr>iteration := 0\<rparr>)"]
  note b = exceeded_iterations
    [where cs = cs_small and prm = prm_one and procs = "[()]" and halo = no_exchange
      and rho_elec = rho_point and psi_init = zero_field and its = 0 and res = ?P
      and fepsilon = one_field and res' = ?V]
  note c = exceeded_iterations
    [where cs = cs_small and prm = prm_two and procs = "[()]" and halo = no_exchange
      and rho_elec = rho_point and psi_init = one_field and its = 0 and fepsilon = eps_thin]
  note a1 = a [THEN conjunct1, THEN mp, OF conjI [OF psi_sor_poisson_two conjI [OF i(1,2)]]]
  note b1 = b [THEN conjunct1, THEN mp,
      OF conjI [OF psi_sor_poisson_one conjI [OF i(3,4)]]]
  note b2 = b [THEN conjunct2, THEN conjunct1, THEN mp,
      OF conjI [OF psi_sor_vare_poisson_one conjI [OF i(6,4)]]]
  note a3 = a [THEN conjunct2, THEN conjunct2, THEN conjunct1, THEN mp, OF conjI [OF it]]
  note c4 = c [THEN conjunct2, THEN conjunct2, THEN conjunct2, THEN conjunct1, THEN mp]
  note c5 = c [THEN conjunct2, THEN conjunct2, THEN conjunct2, THEN conjunct2, THEN mp]
  from a1 have 1: "last (printed two_sweeps) = Exceeded 2 1 (3 / 2)"
    by (simp add: two_sweeps_def)
  from a1 have "fst (rnorm two_sweeps)
      = (\<Sum>p\<leftarrow>[()]. rnorm_local0_poisson cs_small prm_two (rho_point p) (zero_field p))"
    by blast
  then have 2: "fst (rnorm two_sweeps) = 1"
    by (simp add: zero_field_eq rnorm_local0_two)
  from a1 have 3: "\<exists>st. sor_loop ?B 1 0
               (initial_state_poisson cs_small prm_two rho_point zero_field) = Inr st
          \<and> iteration st = 1
          \<and> snd (rnorm two_sweeps) = (\<Sum>p\<leftarrow>[()]. snd (rnorm_local st p))"
    by simp
  from b1 have 4: "last (printed ?P) = Exceeded 1 1 (3 / 2)"
    by (simp add: one_sweep_def)
  from b1 i(5) have 5: "snd (rnorm ?P) = (\<Sum>p\<leftarrow>[()]. snd (rnorm_local ?P p))"
    by blast
  from b2 have 6: "last (printed ?V) = Exceeded 1 1 (3 / 2)"
    by (simp add: one_sweep_def)
  from b2 have "fst (rnorm ?V)
      = (\<Sum>p\<leftarrow>[()]. rnorm_local0_vare cs_small prm_one (one_field p) (rho_point p)
           (zero_field p))"
    and 8: "snd (rnorm ?V) = (\<Sum>p\<leftarrow>[()]. snd (rnorm_local ?V p))"
    by blast+
  then have 7: "fst (rnorm ?V) = 1" by (simp add: one_sweep_def)
  from a3 have 9: "sor_loop ?B 2 (2 - 1) ?sa
      = Inr ((two_sweeps\<lparr>iteration := 0\<rparr>)\<lparr>iteration := 2\<rparr>)"
    by simp
  from c4 g have 10: "\<exists>res. psi_sor_poisson cs_small prm_two [()] no_exchange rho_point
      one_field 0 = Inr res"
    by blast
  from c5 g have 11: "\<exists>res. psi_sor_vare_poisson cs_small prm_two [()] no_exchange eps_thin
      rho_point one_field 0 = Inr res"
    by blast
  from psi_sor_poisson_two psi_sor_poisson_one psi_sor_vare_poisson_one i it g
    1 2 3 4 5 6 7 8 9 10 11
  show ?thesis by blast
qed

end
